theory Spec2Isabelle
  imports Main "HOL-Library.Word"
begin

unbundle bit_operations_syntax

section \<open>SHA-1 test driver and full message hasher (sha1test.c)\<close>

text \<open>
  The C file declares the compression function \<^verbatim>\<open>sha1_compress\<close> as an external
  symbol and defines \<^verbatim>\<open>sha1_hash\<close>, \<^verbatim>\<open>self_check\<close> and \<^verbatim>\<open>main\<close> on top of it.
  The embedding keeps that shape: every function that calls the compression function
  takes it as its first argument, of type \<open>compress_fn\<close>.

  Machine integers: \<^verbatim>\<open>uint8_t\<close> and \<^verbatim>\<open>uint32_t\<close> are 8 and 32 bit words,
  \<^verbatim>\<open>size_t\<close> is the 64 bit word of the x86-64 target.  A pointer to bytes is the
  memory seen through it: \<open>message i\<close> is the byte \<^verbatim>\<open>message[i]\<close>.
\<close>

type_synonym u8 = "8 word"
type_synonym u32 = "32 word"
type_synonym size_t = "64 word"
type_synonym byte_ptr = "nat \<Rightarrow> u8"
type_synonym compress_fn = "u32 list \<Rightarrow> u8 list \<Rightarrow> u32 list"

subsection \<open>State of one call of \<^verbatim>\<open>sha1_hash\<close>\<close>

text \<open>
  The function works on the caller's array \<^verbatim>\<open>hash[5]\<close> and on its local array
  \<^verbatim>\<open>block[64]\<close>.  Two ghost fields record what it does: \<open>calls\<close> lists the
  arguments of every call of the compression function, in order (the state on entry
  and the 64 bytes of the block), and \<open>accesses\<close> lists every read of the message
  and every write to the two arrays.
\<close>

datatype access = MsgRead nat | HashWrite nat | BlockWrite nat

record hasher =
  hash :: "u32 list"
  block :: "u8 list"
  calls :: "(u32 list \<times> u8 list) list"
  accesses :: "access list"

text \<open>\<^verbatim>\<open>hash[i] = v;\<close>\<close>

definition hash_store :: "nat \<Rightarrow> u32 \<Rightarrow> hasher \<Rightarrow> hasher" where
  "hash_store i v s = s\<lparr>hash := (hash s)[i := v], accesses := accesses s @ [HashWrite i]\<rparr>"

text \<open>\<^verbatim>\<open>block[i] = v;\<close>\<close>

definition block_store :: "nat \<Rightarrow> u8 \<Rightarrow> hasher \<Rightarrow> hasher" where
  "block_store i v s = s\<lparr>block := (block s)[i := v], accesses := accesses s @ [BlockWrite i]\<rparr>"

text \<open>
  \<^verbatim>\<open>sha1_compress(hash, blk);\<close> for 64 bytes \<open>blk\<close> that are already at hand.  The
  callee updates the five words of \<^verbatim>\<open>hash\<close> in place.
\<close>

definition compress_call :: "compress_fn \<Rightarrow> u8 list \<Rightarrow> hasher \<Rightarrow> hasher" where
  "compress_call f blk s =
     s\<lparr>hash := f (hash s) blk,
       calls := calls s @ [(hash s, blk)],
       accesses := accesses s @ map HashWrite [0..<5]\<rparr>"

text \<open>
  \<^verbatim>\<open>sha1_compress(hash, &message[off]);\<close>: the callee reads the 64 bytes
  \<^verbatim>\<open>message[off]\<close> to \<^verbatim>\<open>message[off + 63]\<close>.
\<close>

definition compress_message :: "compress_fn \<Rightarrow> byte_ptr \<Rightarrow> nat \<Rightarrow> hasher \<Rightarrow> hasher" where
  "compress_message f message off s =
     compress_call f (map message [off..<off + 64])
       (s\<lparr>accesses := accesses s @ map MsgRead [off..<off + 64]\<rparr>)"

text \<open>\<^verbatim>\<open>uint8_t block[BLOCK_SIZE] = {0};\<close> and \<^verbatim>\<open>memset(block, 0, sizeof(block));\<close>\<close>

definition memset_block :: "hasher \<Rightarrow> hasher" where
  "memset_block s =
     s\<lparr>block := replicate 64 0, accesses := accesses s @ map BlockWrite [0..<64]\<rparr>"

text \<open>
  \<^verbatim>\<open>memcpy(block, &message[off], n);\<close>: \<open>n\<close> bytes are read from the message and
  written to the front of the block (\<open>n\<close> is below 64 wherever the hasher calls it).
\<close>

definition memcpy_block :: "byte_ptr \<Rightarrow> nat \<Rightarrow> nat \<Rightarrow> hasher \<Rightarrow> hasher" where
  "memcpy_block message off n s =
     s\<lparr>block := map message [off..<off + n] @ drop n (block s),
       accesses := accesses s @ map MsgRead [off..<off + n] @ map BlockWrite [0..<n]\<rparr>"

subsection \<open>\<^verbatim>\<open>sha1_hash\<close>\<close>

text \<open>Lines 97 to 101: the five stores to \<^verbatim>\<open>hash\<close>, on its prior contents \<open>h\<close>.\<close>

definition sha1_init :: "u32 list \<Rightarrow> hasher" where
  "sha1_init h =
     hash_store 4 0xC3D2E1F0
      (hash_store 3 0x10325476
        (hash_store 2 0x98BADCFE
          (hash_store 1 0xEFCDAB89
            (hash_store 0 0x67452301
              \<lparr>hash = h, block = [], calls = [], accesses = []\<rparr>))))"

text \<open>
  Lines 106 to 108:
  \<^verbatim>\<open>for (off = 0; len - off >= BLOCK_SIZE; off += BLOCK_SIZE) sha1_compress(hash, &message[off]);\<close>
  in \<^verbatim>\<open>size_t\<close> arithmetic.  The loop returns the final \<open>off\<close>, which the rest of
  the function uses.
\<close>

function read_blocks ::
  "compress_fn \<Rightarrow> byte_ptr \<Rightarrow> size_t \<Rightarrow> size_t \<Rightarrow> hasher \<Rightarrow> size_t \<times> hasher" where
  "read_blocks f message len off s =
     (if len - off \<ge> 64
      then read_blocks f message len (off + 64) (compress_message f message (unat off) s)
      else (off, s))"
  by pat_completeness auto
termination
proof (relation "measure (\<lambda>(f, message, len, off, s). unat (len - off))")
  show "wf (measure (\<lambda>(f, message, len, off, s). unat (len - off)))"
    by simp
next
  fix f :: compress_fn and message :: byte_ptr and len off :: size_t and s :: hasher
  assume ge: "64 \<le> len - off"
  have "unat (64 :: size_t) \<le> unat (len - off)"
    using ge by (simp only: word_le_nat_alt)
  then have pos: "64 \<le> unat (len - off)"
    by simp
  have "len - (off + 64) = (len - off) - 64"
    by simp
  then have "unat (len - (off + 64)) = unat ((len - off) - 64)"
    by (rule arg_cong)
  also have "\<dots> = unat (len - off) - unat (64 :: size_t)"
    using ge by (rule unat_sub)
  also have "\<dots> < unat (len - off)"
    using pos by simp
  finally have "unat (len - (off + 64)) < unat (len - off)" .
  then show "((f, message, len, off + 64, compress_message f message (unat off) s),
              (f, message, len, off, s))
             \<in> measure (\<lambda>(f, message, len, off, s). unat (len - off))"
    by simp
qed

declare read_blocks.simps [simp del]

text \<open>
  Lines 121 to 124, the length field.  Line 121 stores the low five bits of \<^verbatim>\<open>len\<close>,
  shifted left by 3, in the last byte; line 122 shifts \<^verbatim>\<open>len\<close> right by 5; the loop of
  lines 123 and 124 stores the next seven bytes of \<^verbatim>\<open>len\<close> from \<^verbatim>\<open>block[62]\<close> down
  to \<^verbatim>\<open>block[56]\<close>.  The counter \<^verbatim>\<open>i\<close> is an \<^verbatim>\<open>int\<close> between 1 and 8.
\<close>

function encode_loop :: "nat \<Rightarrow> size_t \<Rightarrow> hasher \<Rightarrow> hasher" where
  "encode_loop i len s =
     (if i < 8
      then encode_loop (i + 1) (drop_bit 8 len)
             (block_store (64 - 1 - i) (ucast (len AND 0xFF)) s)
      else s)"
  by pat_completeness auto
termination
  by (relation "measure (\<lambda>(i, len, s). 8 - i)") auto

declare encode_loop.simps [simp del]

definition encode_length :: "size_t \<Rightarrow> hasher \<Rightarrow> hasher" where
  "encode_length len s =
     encode_loop 1 (drop_bit 5 len)
       (block_store (64 - 1) (ucast (push_bit 3 (len AND 0x1F))) s)"

text \<open>
  Lines 110 to 125, everything after the loop over the full blocks: the tail of the
  message is copied into the zeroed block, \<^verbatim>\<open>0x80\<close> is stored behind it, the block is
  compressed and cleared when fewer than 8 bytes are left in it, the length field is
  written and the block is compressed.
\<close>

definition sha1_pad :: "compress_fn \<Rightarrow> byte_ptr \<Rightarrow> size_t \<Rightarrow> size_t \<Rightarrow> hasher \<Rightarrow> hasher" where
  "sha1_pad f message len off s0 =
     (let s1 = memset_block s0;
          rem = len - off;
          s2 = memcpy_block message (unat off) (unat rem) s1;
          s3 = block_store (unat rem) 0x80 s2;
          rem' = rem + 1;
          s4 = (if 64 - rem' < 8 then memset_block (compress_call f (block s3) s3) else s3);
          s5 = encode_length len s4
      in compress_call f (block s5) s5)"

text \<open>
  The whole function.  \<open>h\<close> is what the caller's array holds on entry; the caller reads
  the digest from the field \<open>hash\<close> of the result.
\<close>

definition sha1_hash :: "compress_fn \<Rightarrow> byte_ptr \<Rightarrow> size_t \<Rightarrow> u32 list \<Rightarrow> hasher" where
  "sha1_hash f message len h =
     (case read_blocks f message len 0 (sha1_init h) of
        (off, s) \<Rightarrow> sha1_pad f message len off s)"

subsection \<open>\<^verbatim>\<open>self_check\<close> and \<^verbatim>\<open>main\<close>\<close>

text \<open>
  \<^verbatim>\<open>struct testcase\<close>: the expected digest and the message, a C string literal.
  \<open>c_bytes str\<close> is the memory seen through the pointer to the literal: its
  characters, then the terminating zero byte.  \<^verbatim>\<open>strlen\<close> counts the bytes before
  the first zero byte.
\<close>

record testcase =
  answer :: "u32 list"
  message :: string

definition testCases :: "testcase list" where
  "testCases =
     [\<lparr>answer = [0xDA39A3EE, 0x5E6B4B0D, 0x3255BFEF, 0x95601890, 0xAFD80709],
       message = []\<rparr>,
      \<lparr>answer = [0x86F7E437, 0xFAA5A7FC, 0xE15D1DDC, 0xB9EAEAEA, 0x377667B8],
       message = ''a''\<rparr>,
      \<lparr>answer = [0xA9993E36, 0x4706816A, 0xBA3E2571, 0x7850C26C, 0x9CD0D89D],
       message = ''abc''\<rparr>,
      \<lparr>answer = [0xC12252CE, 0xDA8BE899, 0x4D5FA029, 0x0A47231C, 0x1D16AAE3],
       message = ''message digest''\<rparr>,
      \<lparr>answer = [0x32D10C7B, 0x8CF96570, 0xCA04CE37, 0xF2A19D84, 0x240D3A89],
       message = ''abcdefghijklmnopqrstuvwxyz''\<rparr>,
      \<lparr>answer = [0x84983E44, 0x1C3BD26E, 0xBAAE4AA1, 0xF95129E5, 0xE54670F1],
       message = ''abcdbcdecdefdefgefghfghighijhijkijkljklmklmnlmnomnopnopq''\<rparr>]"

definition c_bytes :: "string \<Rightarrow> byte_ptr" where
  "c_bytes str i = (if i < length str then of_char (str ! i) else 0)"

definition strlen :: "string \<Rightarrow> nat" where
  "strlen str = length (takeWhile (\<lambda>c. c \<noteq> CHR 0x00) str)"

text \<open>
  The digest that \<^verbatim>\<open>self_check\<close> computes for one test case.  The local array
  \<^verbatim>\<open>hash[5]\<close> is not initialised: \<open>u\<close> is whatever it holds.
\<close>

definition testcase_hash :: "compress_fn \<Rightarrow> u32 list \<Rightarrow> testcase \<Rightarrow> u32 list" where
  "testcase_hash f u tc =
     hash (sha1_hash f (c_bytes (message tc)) (of_nat (strlen (message tc))) u)"

text \<open>
  The loop of \<^verbatim>\<open>self_check\<close> from index \<open>i\<close> on; \<^verbatim>\<open>memcmp\<close> over the 20 bytes of
  the two arrays is 0 when the five words are equal.  \<open>uninit i\<close> is what the
  uninitialised local array holds in iteration \<open>i\<close>.
\<close>

function self_check_from :: "compress_fn \<Rightarrow> (nat \<Rightarrow> u32 list) \<Rightarrow> nat \<Rightarrow> bool" where
  "self_check_from f uninit i =
     (if i < length testCases
      then (if testcase_hash f (uninit i) (testCases ! i) \<noteq> answer (testCases ! i)
            then False
            else self_check_from f uninit (i + 1))
      else True)"
  by pat_completeness auto
termination
  by (relation "measure (\<lambda>(f, uninit, i). length testCases - i)") auto

declare self_check_from.simps [simp del]

definition self_check :: "compress_fn \<Rightarrow> (nat \<Rightarrow> u32 list) \<Rightarrow> bool" where
  "self_check f uninit = self_check_from f uninit 0"

text \<open>
  \<^verbatim>\<open>main\<close>.  What is observed of a run: the exit status, the lines printed (the
  number in the speed line comes from \<^verbatim>\<open>clock()\<close> and is left out) and how often
  the benchmark loop called the compression function.  \<^verbatim>\<open>EXIT_SUCCESS\<close> and
  \<^verbatim>\<open>EXIT_FAILURE\<close> are the values of the C library of the target, 0 and 1.
\<close>

definition EXIT_SUCCESS :: int where
  "EXIT_SUCCESS = 0"

definition EXIT_FAILURE :: int where
  "EXIT_FAILURE = 1"

datatype printed = Self_check_failed | Self_check_passed | Speed

record run =
  exit_status :: int
  stdout :: "printed list"
  bench_calls :: nat

text \<open>
  \<^verbatim>\<open>for (int i = 0; i < N; i++) sha1_compress(state, block);\<close> with \<^verbatim>\<open>N = 10000000\<close> and
  an all-zero block; the second component counts the calls.
\<close>

function bench_loop :: "compress_fn \<Rightarrow> int \<Rightarrow> u32 list \<times> nat \<Rightarrow> u32 list \<times> nat" where
  "bench_loop f i (state, n) =
     (if i < 10000000
      then bench_loop f (i + 1) (f state (replicate 64 0), n + 1)
      else (state, n))"
  by pat_completeness auto
termination
  by (relation "measure (\<lambda>(f, i, sn). nat (10000000 - i))") auto

declare bench_loop.simps [simp del]

definition main :: "compress_fn \<Rightarrow> (nat \<Rightarrow> u32 list) \<Rightarrow> run" where
  "main f uninit =
     (if \<not> self_check f uninit
      then \<lparr>exit_status = EXIT_FAILURE, stdout = [Self_check_failed], bench_calls = 0\<rparr>
      else (case bench_loop f 0 (replicate 5 0, 0) of
              (state, n) \<Rightarrow>
                \<lparr>exit_status = EXIT_SUCCESS, stdout = [Self_check_passed, Speed],
                 bench_calls = n\<rparr>))"

subsection \<open>The compression function\<close>

text \<open>
  Modelled from the spec: \<^verbatim>\<open>sha1_compress\<close> is only declared in sha1test.c
  (\<^verbatim>\<open>extern void sha1_compress(uint32_t state[5], const uint8_t block[64])\<close>); its
  body is in files of the repository that are linked in.  The definitions below
  follow the five steps of section 4.1 of the specification.
\<close>

text \<open>Modelled from the spec: rotate-left is \<^verbatim>\<open>(x << n) | (x >> (32-n))\<close>.\<close>

definition rotl32 :: "u32 \<Rightarrow> nat \<Rightarrow> u32" where
  "rotl32 x n = push_bit n x OR drop_bit (32 - n) x"

text \<open>Modelled from the spec: step 1, word \<open>j\<close> of the block, big-endian.\<close>

definition be32 :: "u8 list \<Rightarrow> nat \<Rightarrow> u32" where
  "be32 blk j =
     push_bit 24 (ucast (blk ! (4 * j))) OR push_bit 16 (ucast (blk ! (4 * j + 1))) OR
     push_bit 8 (ucast (blk ! (4 * j + 2))) OR ucast (blk ! (4 * j + 3))"

text \<open>Modelled from the spec: step 2, the schedule word \<open>w[i]\<close> appended to \<open>w[0..i-1]\<close>.\<close>

definition schedule_step :: "nat \<Rightarrow> u32 list \<Rightarrow> u32 list" where
  "schedule_step i w =
     w @ [rotl32 (w ! (i - 3) XOR w ! (i - 8) XOR w ! (i - 14) XOR w ! (i - 16)) 1]"

text \<open>Modelled from the spec: steps 1 and 2, the 80 schedule words of a block.\<close>

definition schedule :: "u8 list \<Rightarrow> u32 list" where
  "schedule blk = fold schedule_step [16..<80] (map (be32 blk) [0..<16])"

text \<open>Modelled from the spec: step 4, the function \<open>f\<close> of round \<open>i\<close>.\<close>

definition round_f :: "nat \<Rightarrow> u32 \<Rightarrow> u32 \<Rightarrow> u32 \<Rightarrow> u32" where
  "round_f i b c d =
     (if i < 20 then (b AND c) OR (NOT b AND d)
      else if i < 40 then b XOR c XOR d
      else if i < 60 then (b AND c) OR (b AND d) OR (c AND d)
      else b XOR c XOR d)"

text \<open>Modelled from the spec: step 4, the constant \<open>k\<close> of round \<open>i\<close>.\<close>

definition round_k :: "nat \<Rightarrow> u32" where
  "round_k i =
     (if i < 20 then 0x5A827999
      else if i < 40 then 0x6ED9EBA1
      else if i < 60 then 0x8F1BBCDC
      else 0xCA62C1D6)"

type_synonym working = "u32 \<times> u32 \<times> u32 \<times> u32 \<times> u32"

text \<open>Modelled from the spec: step 4, round \<open>i\<close> on the working variables.\<close>

fun sha1_round :: "u32 list \<Rightarrow> nat \<Rightarrow> working \<Rightarrow> working" where
  "sha1_round w i (a, b, c, d, e) =
     (rotl32 a 5 + round_f i b c d + e + round_k i + w ! i, a, rotl32 b 30, c, d)"

text \<open>Modelled from the spec: steps 3 to 5, the 80 rounds and the final addition.\<close>

definition sha1_compress :: compress_fn where
  "sha1_compress state blk =
     (case fold (sha1_round (schedule blk)) [0..<80]
             (state ! 0, state ! 1, state ! 2, state ! 3, state ! 4) of
        (a, b, c, d, e) \<Rightarrow>
          [state ! 0 + a, state ! 1 + b, state ! 2 + c, state ! 3 + d, state ! 4 + e])"

subsection \<open>Notions used to state the properties\<close>

text \<open>
  The calls that a compression function \<open>f\<close> sees when it is run over a list of
  blocks from the state \<open>h\<close>, each call with the state the previous one returned
  (\<open>thread\<close>), and the state after the last of them (\<open>absorb\<close>).
\<close>

fun thread :: "compress_fn \<Rightarrow> u32 list \<Rightarrow> u8 list list \<Rightarrow> (u32 list \<times> u8 list) list" where
  "thread f h [] = []"
| "thread f h (b # bs) = (h, b) # thread f (f h b) bs"

fun absorb :: "compress_fn \<Rightarrow> u32 list \<Rightarrow> u8 list list \<Rightarrow> u32 list" where
  "absorb f h [] = h"
| "absorb f h (b # bs) = absorb f (f h b) bs"

text \<open>The initial state, the \<open>k\<close>-th 64-byte chunk of a message and its tail.\<close>

definition H0 :: "u32 list" where
  "H0 = [0x67452301, 0xEFCDAB89, 0x98BADCFE, 0x10325476, 0xC3D2E1F0]"

definition chunk :: "byte_ptr \<Rightarrow> nat \<Rightarrow> u8 list" where
  "chunk m k = map m [64 * k..<64 * k + 64]"

definition tail :: "byte_ptr \<Rightarrow> size_t \<Rightarrow> u8 list" where
  "tail m len = map m [64 * (unat len div 64)..<unat len]"

text \<open>The accesses of one call of the compression function on chunk \<open>k\<close>.\<close>

definition chunk_accesses :: "nat \<Rightarrow> access list" where
  "chunk_accesses k = map MsgRead [64 * k..<64 * k + 64] @ map HashWrite [0..<5]"

text \<open>The eight bytes of a 64 bit word, most significant byte first.\<close>

definition be64 :: "size_t \<Rightarrow> u8 list" where
  "be64 x = map (\<lambda>j. ucast (drop_bit (8 * (7 - j)) x)) [0..<8]"

text \<open>
  The one or two blocks that end a message of length \<open>len\<close> with tail \<open>t\<close>, as
  section 4.2 of the specification describes them, and the whole padded message.
\<close>

definition final_blocks :: "u8 list \<Rightarrow> size_t \<Rightarrow> u8 list list" where
  "final_blocks t len =
     (if length t \<le> 55
      then [t @ [0x80] @ replicate (55 - length t) 0 @ be64 (len * 8)]
      else [t @ [0x80] @ replicate (63 - length t) 0, replicate 56 0 @ be64 (len * 8)])"

definition padded_blocks :: "byte_ptr \<Rightarrow> size_t \<Rightarrow> u8 list list" where
  "padded_blocks m len =
     map (chunk m) [0..<unat len div 64] @ final_blocks (tail m len) len"

text \<open>An access that stays inside a message of \<open>n\<close> bytes and inside the two arrays.\<close>

fun access_ok :: "nat \<Rightarrow> access \<Rightarrow> bool" where
  "access_ok n (MsgRead i) = (i < n)"
| "access_ok n (HashWrite i) = (i < 5)"
| "access_ok n (BlockWrite i) = (i < 64)"

section \<open>Properties\<close>

subsection \<open>Auxiliary facts\<close>

lemma size_t_le_nat: "unat off \<le> unat len \<Longrightarrow> unat (len - off) = unat len - unat (off :: size_t)"
  by (simp add: unat_sub word_le_nat_alt)

lemma loop_guard_nat:
  fixes len off :: size_t
  assumes "unat off \<le> unat len"
  shows "(64 \<le> len - off) = (64 \<le> unat len - unat off)"
  using assms by (simp add: word_le_nat_alt size_t_le_nat)

lemma off_step_nat:
  fixes len off :: size_t
  assumes "unat off \<le> unat len" "64 \<le> unat len - unat off"
  shows "unat (off + 64) = unat off + 64"
proof -
  have "unat len < 2 ^ 64"
    using unsigned_less [of len, where 'a = nat] by simp
  then have "unat off + unat (64 :: size_t) < 2 ^ LENGTH(64)"
    using assms by simp
  then have "unat (off + 64) = unat off + unat (64 :: size_t)"
    by (simp only: unat_add_lem)
  then show ?thesis by simp
qed

lemma read_blocks_fold:
  "unat off \<le> unat len \<Longrightarrow> (unat len - unat off) div 64 = n \<Longrightarrow>
   read_blocks f m len off s =
     (off + of_nat (64 * n),
      fold (\<lambda>k. compress_message f m (unat off + 64 * k)) [0..<n] s)"
proof (induction n arbitrary: off s)
  case 0
  then have "\<not> 64 \<le> len - off"
    by (simp add: loop_guard_nat div_eq_0_iff)
  then show ?case
    by (simp add: read_blocks.simps [of f m len off s])
next
  case (Suc n)
  then have ge: "64 \<le> unat len - unat off"
    by (metis Suc_neq_Zero div_eq_0_iff not_less zero_neq_numeral)
  have step: "unat (off + 64) = unat off + 64"
    using Suc.prems(1) ge by (rule off_step_nat)
  have le': "unat (off + 64) \<le> unat len"
    using step ge by simp
  have n': "(unat len - unat (off + 64)) div 64 = n"
    using Suc.prems(2) ge step by simp
  have "read_blocks f m len off s =
        read_blocks f m len (off + 64) (compress_message f m (unat off) s)"
    using ge Suc.prems(1) by (simp add: read_blocks.simps [of f m len off s] loop_guard_nat)
  also have "\<dots> = (off + 64 + of_nat (64 * n),
      fold (\<lambda>k. compress_message f m (unat (off + 64) + 64 * k)) [0..<n]
        (compress_message f m (unat off) s))"
    using le' n' by (rule Suc.IH)
  also have "off + 64 + of_nat (64 * n) = off + of_nat (64 * Suc n)"
    by simp
  also have "fold (\<lambda>k. compress_message f m (unat (off + 64) + 64 * k)) [0..<n]
        (compress_message f m (unat off) s) =
      fold (\<lambda>k. compress_message f m (unat off + 64 * k)) [0..<Suc n] s"
  proof -
    have "[0..<Suc n] = 0 # map Suc [0..<n]"
      by (simp add: upt_conv_Cons map_Suc_upt del: upt_Suc)
    then show ?thesis
      by (simp add: step fold_map comp_def add.assoc del: upt_Suc)
  qed
  finally show ?case .
qed

lemma be64_unfold:
  "be64 x = [ucast (drop_bit 56 x), ucast (drop_bit 48 x), ucast (drop_bit 40 x),
     ucast (drop_bit 32 x), ucast (drop_bit 24 x), ucast (drop_bit 16 x),
     ucast (drop_bit 8 x), ucast x]"
  by (simp add: be64_def upt_rec)

lemma low_byte_len:
  fixes len :: size_t
  shows "(ucast (push_bit 3 (len AND 0x1F)) :: u8) = ucast (len * 8)"
proof -
  have m: "(0x1F :: size_t) = mask 5"
    by (simp add: mask_eq_exp_minus_1)
  have p: "len * 8 = push_bit 3 len"
    by (simp add: push_bit_eq_mult)
  show ?thesis
    unfolding m p by (rule bit_word_eqI) (auto simp add: bit_simps)
qed

lemma high_byte_len:
  fixes len :: size_t
  assumes "k \<le> 48"
  shows "(ucast (drop_bit (5 + k) len AND 0xFF) :: u8) = ucast (drop_bit (8 + k) (len * 8))"
proof -
  have m: "(0xFF :: size_t) = mask 8"
    by (simp add: mask_eq_exp_minus_1)
  have p: "len * 8 = push_bit 3 len"
    by (simp add: push_bit_eq_mult)
  show ?thesis
    unfolding m p using assms by (intro bit_word_eqI) (auto simp add: bit_simps add.assoc)
qed

lemma update_last8:
  assumes "length xs = 64"
  shows "xs[63 := b7, 62 := b6, 61 := b5, 60 := b4, 59 := b3, 58 := b2, 57 := b1, 56 := b0] =
         take 56 xs @ [b0, b1, b2, b3, b4, b5, b6, b7]"
proof (rule nth_equalityI)
  show "length (xs[63 := b7, 62 := b6, 61 := b5, 60 := b4, 59 := b3, 58 := b2, 57 := b1, 56 := b0]) =
        length (take 56 xs @ [b0, b1, b2, b3, b4, b5, b6, b7])"
    using assms by simp
next
  fix i
  assume "i < length (xs[63 := b7, 62 := b6, 61 := b5, 60 := b4, 59 := b3, 58 := b2, 57 := b1, 56 := b0])"
  then have i: "i < 64"
    using assms by simp
  consider "i < 56" | "i = 56" | "i = 57" | "i = 58" | "i = 59" | "i = 60" | "i = 61" | "i = 62" | "i = 63"
    using i by linarith
  then show "xs[63 := b7, 62 := b6, 61 := b5, 60 := b4, 59 := b3, 58 := b2, 57 := b1, 56 := b0] ! i =
        (take 56 xs @ [b0, b1, b2, b3, b4, b5, b6, b7]) ! i"
    using assms by cases (simp_all add: nth_append)
qed

lemma encode_length_fields:
  "hash (encode_length len s) = hash s"
  "calls (encode_length len s) = calls s"
  "accesses (encode_length len s) =
     accesses s @ map BlockWrite [63, 62, 61, 60, 59, 58, 57, 56]"
  "block (encode_length len s) =
     (block s)[63 := ucast (push_bit 3 (len AND 0x1F)),
               62 := ucast (drop_bit 5 len AND 0xFF),
               61 := ucast (drop_bit 13 len AND 0xFF),
               60 := ucast (drop_bit 21 len AND 0xFF),
               59 := ucast (drop_bit 29 len AND 0xFF),
               58 := ucast (drop_bit 37 len AND 0xFF),
               57 := ucast (drop_bit 45 len AND 0xFF),
               56 := ucast (drop_bit 53 len AND 0xFF)]"
  by (simp_all add: encode_length_def encode_loop.simps block_store_def)

lemma high_bytes_len:
  fixes len :: size_t
  shows "(ucast (drop_bit 53 len AND 0xFF) :: u8) = ucast (drop_bit 56 (len * 8))"
    and "(ucast (drop_bit 45 len AND 0xFF) :: u8) = ucast (drop_bit 48 (len * 8))"
    and "(ucast (drop_bit 37 len AND 0xFF) :: u8) = ucast (drop_bit 40 (len * 8))"
    and "(ucast (drop_bit 29 len AND 0xFF) :: u8) = ucast (drop_bit 32 (len * 8))"
    and "(ucast (drop_bit 21 len AND 0xFF) :: u8) = ucast (drop_bit 24 (len * 8))"
    and "(ucast (drop_bit 13 len AND 0xFF) :: u8) = ucast (drop_bit 16 (len * 8))"
    and "(ucast (drop_bit 5 len AND 0xFF) :: u8) = ucast (drop_bit 8 (len * 8))"
  using high_byte_len [of 48 len] high_byte_len [of 40 len] high_byte_len [of 32 len]
    high_byte_len [of 24 len] high_byte_len [of 16 len] high_byte_len [of 8 len]
    high_byte_len [of 0 len]
  by simp_all

lemma encode_length_block:
  assumes "length (block s) = 64"
  shows "block (encode_length len s) = take 56 (block s) @ be64 (len * 8)"
proof -
  note encode_length_fields(4) [of len s]
  also note update_last8 [OF assms]
  finally show ?thesis
    by (simp only: be64_unfold high_bytes_len low_byte_len)
qed

lemma thread_append:
  "thread f h (bs @ cs) = thread f h bs @ thread f (absorb f h bs) cs"
  by (induction bs arbitrary: h) simp_all

lemma absorb_append:
  "absorb f h (bs @ cs) = absorb f (absorb f h bs) cs"
  by (induction bs arbitrary: h) simp_all

lemma length_thread: "length (thread f h bs) = length bs"
  by (induction bs arbitrary: h) simp_all

lemma map_snd_thread: "map snd (thread f h bs) = bs"
  by (induction bs arbitrary: h) simp_all

lemma compress_call_fields:
  "hash (compress_call f blk s) = f (hash s) blk"
  "block (compress_call f blk s) = block s"
  "calls (compress_call f blk s) = calls s @ [(hash s, blk)]"
  "accesses (compress_call f blk s) = accesses s @ map HashWrite [0..<5]"
  by (simp_all add: compress_call_def)

lemma compress_message_fields:
  "hash (compress_message f m off s) = f (hash s) (map m [off..<off + 64])"
  "block (compress_message f m off s) = block s"
  "calls (compress_message f m off s) = calls s @ [(hash s, map m [off..<off + 64])]"
  "accesses (compress_message f m off s) =
     accesses s @ map MsgRead [off..<off + 64] @ map HashWrite [0..<5]"
  by (simp_all add: compress_message_def compress_call_def)

lemma full_blocks_fields:
  fixes f :: compress_fn and m :: byte_ptr
  defines "F n s \<equiv> fold (\<lambda>k. compress_message f m (64 * k)) [0..<n] s"
  shows "hash (F n s) = absorb f (hash s) (map (chunk m) [0..<n])"
    and "block (F n s) = block s"
    and "calls (F n s) = calls s @ thread f (hash s) (map (chunk m) [0..<n])"
    and "accesses (F n s) = accesses s @ concat (map chunk_accesses [0..<n])"
proof -
  have "hash (F n s) = absorb f (hash s) (map (chunk m) [0..<n]) \<and>
        block (F n s) = block s \<and>
        calls (F n s) = calls s @ thread f (hash s) (map (chunk m) [0..<n]) \<and>
        accesses (F n s) = accesses s @ concat (map chunk_accesses [0..<n])"
  proof (induction n)
    case 0
    show ?case by (simp add: F_def)
  next
    case (Suc n)
    have "F (Suc n) s = compress_message f m (64 * n) (F n s)"
      by (simp add: F_def)
    with Suc show ?case
      by (simp add: compress_message_fields absorb_append thread_append chunk_def
            chunk_accesses_def)
  qed
  then show "hash (F n s) = absorb f (hash s) (map (chunk m) [0..<n])"
    and "block (F n s) = block s"
    and "calls (F n s) = calls s @ thread f (hash s) (map (chunk m) [0..<n])"
    and "accesses (F n s) = accesses s @ concat (map chunk_accesses [0..<n])"
    by simp_all
qed

lemma pad_guard:
  fixes x :: size_t
  assumes "unat x = r" "r < 64"
  shows "(64 - (x + 1) < (8 :: size_t)) = (55 < r)"
proof -
  have "unat x + unat (1 :: size_t) < 2 ^ LENGTH(64)"
    using assms by simp
  then have "unat (x + 1) = unat x + unat (1 :: size_t)"
    by (simp only: unat_add_lem)
  then have x1: "unat (x + 1) = r + 1"
    using assms by simp
  then have "unat (x + 1) \<le> unat (64 :: size_t)"
    using assms by simp
  then have "x + 1 \<le> 64"
    by (simp only: word_le_nat_alt)
  then have "unat (64 - (x + 1)) = unat (64 :: size_t) - unat (x + 1)"
    by (rule unat_sub)
  then have "unat (64 - (x + 1)) = 63 - r"
    using x1 by simp
  then show ?thesis
    using assms by (auto simp add: word_less_nat_alt)
qed

lemma block_store_fields:
  "hash (block_store i v s) = hash s"
  "block (block_store i v s) = (block s)[i := v]"
  "calls (block_store i v s) = calls s"
  "accesses (block_store i v s) = accesses s @ [BlockWrite i]"
  by (simp_all add: block_store_def)

lemma memset_block_fields:
  "hash (memset_block s) = hash s"
  "block (memset_block s) = replicate 64 0"
  "calls (memset_block s) = calls s"
  "accesses (memset_block s) = accesses s @ map BlockWrite [0..<64]"
  by (simp_all add: memset_block_def)

lemma memcpy_block_fields:
  "hash (memcpy_block m off n s) = hash s"
  "block (memcpy_block m off n s) = map m [off..<off + n] @ drop n (block s)"
  "calls (memcpy_block m off n s) = calls s"
  "accesses (memcpy_block m off n s) =
     accesses s @ map MsgRead [off..<off + n] @ map BlockWrite [0..<n]"
  by (simp_all add: memcpy_block_def)

lemma tail_block:
  assumes "length t = r" "r < 64"
  shows "(t @ drop r (replicate 64 (0 :: u8)))[r := 0x80] = t @ [0x80] @ replicate (63 - r) 0"
proof -
  have "64 - r = Suc (63 - r)"
    using assms by simp
  then have "replicate (64 - r) (0 :: u8) = 0 # replicate (63 - r) 0"
    by simp
  then show ?thesis
    using assms by (simp add: list_update_append)
qed

lemma tail_block_take:
  assumes "length t = r" "r \<le> 55"
  shows "take 56 (t @ [0x80] @ replicate (63 - r) (0 :: u8)) = t @ [0x80] @ replicate (55 - r) 0"
proof -
  have "56 - r = Suc (55 - r)"
    using assms by simp
  then show ?thesis
    using assms by (simp add: min_def)
qed

lemma sha1_pad_unfold:
  fixes m :: byte_ptr and len off :: size_t and r :: nat
  assumes r: "unat (len - off) = r" "r < 64"
  defines "s3 \<equiv> \<lambda>s. block_store r 0x80 (memcpy_block m (unat off) r (memset_block s))"
  shows "sha1_pad f m len off s =
     (let s4 = (if 55 < r then memset_block (compress_call f (block (s3 s)) (s3 s)) else s3 s);
          s5 = encode_length len s4
      in compress_call f (block s5) s5)"
  by (simp only: sha1_pad_def Let_def pad_guard [OF r] r(1) s3_def)

lemma sha1_pad_fields:
  fixes m :: byte_ptr and len off :: size_t and r :: nat
  assumes r: "unat (len - off) = r" "r < 64"
  defines "t \<equiv> map m [unat off..<unat off + r]"
  shows "calls (sha1_pad f m len off s) = calls s @ thread f (hash s) (final_blocks t len)"
    and "hash (sha1_pad f m len off s) = absorb f (hash s) (final_blocks t len)"
proof -
  have lt: "length t = r"
    by (simp add: t_def)
  define s3 where "s3 = block_store r 0x80 (memcpy_block m (unat off) r (memset_block s))"
  have b3: "block s3 = t @ [0x80] @ replicate (63 - r) 0"
    using tail_block [OF lt r(2)]
    by (simp add: s3_def block_store_fields memcpy_block_fields memset_block_fields t_def)
  have h3: "hash s3 = hash s" and c3: "calls s3 = calls s"
    by (simp_all add: s3_def block_store_fields memcpy_block_fields memset_block_fields)
  have len3: "length (block s3) = 64"
    using r(2) lt by (simp add: b3)
  define s4 where "s4 = memset_block (compress_call f (block s3) s3)"
  have h4: "hash s4 = f (hash s) (block s3)" and c4: "calls s4 = calls s @ [(hash s, block s3)]"
    and b4: "block s4 = replicate 64 0"
    by (simp_all add: s4_def memset_block_fields compress_call_fields h3 c3)
  have len4: "length (block s4) = 64"
    by (simp add: b4)
  have b5_one: "block (encode_length len s3) = t @ [0x80] @ replicate (55 - r) 0 @ be64 (len * 8)"
    if "r \<le> 55"
    using tail_block_take [OF lt that] by (simp add: encode_length_block [OF len3] b3)
  have b5_two: "block (encode_length len s4) = replicate 56 0 @ be64 (len * 8)"
    by (simp add: encode_length_block [OF len4] b4)
  have pad: "sha1_pad f m len off s =
     (if 55 < r
      then compress_call f (block (encode_length len s4)) (encode_length len s4)
      else compress_call f (block (encode_length len s3)) (encode_length len s3))"
    by (simp add: sha1_pad_unfold [OF r] s3_def s4_def Let_def)
  show "calls (sha1_pad f m len off s) = calls s @ thread f (hash s) (final_blocks t len)"
  proof (cases "r \<le> 55")
    case True
    then show ?thesis
      using lt b5_one [OF True]
      by (simp add: pad final_blocks_def compress_call_fields encode_length_fields(1-3) h3 c3)
  next
    case False
    then show ?thesis
      using lt b5_two
      by (simp add: pad final_blocks_def compress_call_fields encode_length_fields(1-3) h4 c4 b3)
  qed
  show "hash (sha1_pad f m len off s) = absorb f (hash s) (final_blocks t len)"
  proof (cases "r \<le> 55")
    case True
    then show ?thesis
      using lt b5_one [OF True]
      by (simp add: pad final_blocks_def compress_call_fields encode_length_fields(1-3) h3 c3)
  next
    case False
    then show ?thesis
      using lt b5_two
      by (simp add: pad final_blocks_def compress_call_fields encode_length_fields(1-3) h4 c4 b3)
  qed
qed

lemma hash_store_fields:
  "hash (hash_store i v s) = (hash s)[i := v]"
  "block (hash_store i v s) = block s"
  "calls (hash_store i v s) = calls s"
  "accesses (hash_store i v s) = accesses s @ [HashWrite i]"
  by (simp_all add: hash_store_def)

lemma sha1_init_fields:
  "hash (sha1_init h) =
     h[0 := 0x67452301, 1 := 0xEFCDAB89, 2 := 0x98BADCFE, 3 := 0x10325476, 4 := 0xC3D2E1F0]"
  "block (sha1_init h) = []"
  "calls (sha1_init h) = []"
  "accesses (sha1_init h) = map HashWrite [0, 1, 2, 3, 4]"
  by (simp_all add: sha1_init_def hash_store_fields)

lemma list5_update:
  assumes "length h = 5"
  shows "h[0 := a, 1 := b, 2 := c, 3 := d, 4 := e] = [a, b, c, d, e]"
proof -
  obtain x0 x1 x2 x3 x4 where "h = [x0, x1, x2, x3, x4]"
    using assms by (auto simp add: length_Suc_conv eval_nat_numeral)
  then show ?thesis by simp
qed

lemma sha1_init_hash:
  assumes "length h = 5"
  shows "hash (sha1_init h) = H0"
  unfolding sha1_init_fields(1) H0_def using assms by (rule list5_update)

lemma full_offset:
  fixes len :: size_t
  defines "off \<equiv> (of_nat (64 * (unat len div 64)) :: size_t)"
  shows "unat off = 64 * (unat len div 64)" and "unat (len - off) = unat len mod 64"
proof -
  have "64 * (unat len div 64) \<le> unat len"
    by simp
  moreover have "unat len < 2 ^ 64"
    using unsigned_less [of len, where 'a = nat] by simp
  ultimately have "64 * (unat len div 64) < 2 ^ LENGTH(64)"
    by simp
  then have "64 * (unat len div 64) mod 2 ^ LENGTH(64) = 64 * (unat len div 64)"
    by (rule mod_less)
  then show o: "unat off = 64 * (unat len div 64)"
    unfolding off_def by (simp only: unat_of_nat)
  then have "unat off \<le> unat len"
    by simp
  then have "unat (len - off) = unat len - unat off"
    by (rule size_t_le_nat)
  then show "unat (len - off) = unat len mod 64"
    using o by (simp add: minus_mult_div_eq_mod)
qed

lemma sha1_hash_unfold:
  "sha1_hash f m len h =
     sha1_pad f m len (of_nat (64 * (unat len div 64)))
       (fold (\<lambda>k. compress_message f m (64 * k)) [0..<unat len div 64] (sha1_init h))"
proof -
  have "read_blocks f m len 0 (sha1_init h) =
     (0 + of_nat (64 * (unat len div 64)),
      fold (\<lambda>k. compress_message f m (unat (0 :: size_t) + 64 * k)) [0..<unat len div 64]
        (sha1_init h))"
    by (rule read_blocks_fold) simp_all
  then show ?thesis
    by (simp add: sha1_hash_def)
qed

lemma sha1_hash_fields:
  "calls (sha1_hash f m len h) = thread f (hash (sha1_init h)) (padded_blocks m len)"
  "hash (sha1_hash f m len h) = absorb f (hash (sha1_init h)) (padded_blocks m len)"
proof -
  let ?n = "unat len div 64"
  let ?off = "of_nat (64 * ?n) :: size_t"
  let ?F = "fold (\<lambda>k. compress_message f m (64 * k)) [0..<?n] (sha1_init h)"
  have r: "unat (len - ?off) = unat len mod 64" "unat len mod 64 < 64"
    by (rule full_offset(2)) simp
  have t: "map m [unat ?off..<unat ?off + unat len mod 64] = tail m len"
    unfolding full_offset(1) tail_def by simp
  have cF: "calls ?F = thread f (hash (sha1_init h)) (map (chunk m) [0..<?n])"
    by (simp add: full_blocks_fields sha1_init_fields(3))
  have hF: "hash ?F = absorb f (hash (sha1_init h)) (map (chunk m) [0..<?n])"
    by (simp add: full_blocks_fields)
  have "calls (sha1_hash f m len h) = calls (sha1_pad f m len ?off ?F)"
    by (simp only: sha1_hash_unfold)
  also have "\<dots> = calls ?F @ thread f (hash ?F) (final_blocks (tail m len) len)"
    unfolding t [symmetric] by (rule sha1_pad_fields(1) [OF r])
  finally show "calls (sha1_hash f m len h) = thread f (hash (sha1_init h)) (padded_blocks m len)"
    by (simp only: cF hF thread_append padded_blocks_def)
  have "hash (sha1_hash f m len h) = hash (sha1_pad f m len ?off ?F)"
    by (simp only: sha1_hash_unfold)
  also have "\<dots> = absorb f (hash ?F) (final_blocks (tail m len) len)"
    unfolding t [symmetric] by (rule sha1_pad_fields(2) [OF r])
  finally show "hash (sha1_hash f m len h) = absorb f (hash (sha1_init h)) (padded_blocks m len)"
    by (simp only: hF absorb_append padded_blocks_def)
qed

lemma final_blocks_nonempty: "final_blocks t len \<noteq> []"
  by (simp add: final_blocks_def)

lemma padded_blocks_nonempty: "padded_blocks m len \<noteq> []"
  by (simp add: padded_blocks_def final_blocks_nonempty)

lemma thread_hd: "bs \<noteq> [] \<Longrightarrow> fst (hd (thread f h bs)) = h"
  by (cases bs) simp_all

lemma length_tail: "length (tail m len) = unat len mod 64"
  by (simp add: tail_def minus_mult_div_eq_mod)

lemma length_final_blocks:
  "length (final_blocks t len) = (if length t \<le> 55 then 1 else 2)"
  by (simp add: final_blocks_def)

lemma length_padded_blocks:
  "length (padded_blocks m len) = unat len div 64 + (if unat len mod 64 \<le> 55 then 1 else 2)"
  by (simp add: padded_blocks_def length_final_blocks length_tail)

lemma chunk_cong:
  assumes "\<forall>i<n. m i = m' i" "64 * k + 64 \<le> n"
  shows "chunk m k = chunk m' k"
  using assms by (simp add: chunk_def)

lemma padded_blocks_cong:
  assumes "\<forall>i<unat len. m i = m' i"
  shows "padded_blocks m len = padded_blocks m' len"
proof -
  have "chunk m k = chunk m' k" if "k < unat len div 64" for k
  proof -
    have "64 * k + 64 \<le> 64 * (unat len div 64)"
      using that by simp
    also have "\<dots> \<le> unat len"
      by simp
    finally show ?thesis
      using assms by (rule chunk_cong [rotated])
  qed
  then have "map (chunk m) [0..<unat len div 64] = map (chunk m') [0..<unat len div 64]"
    by simp
  moreover have "tail m len = tail m' len"
    using assms by (simp add: tail_def)
  ultimately show ?thesis
    by (simp add: padded_blocks_def)
qed

subsection \<open>The driver: full blocks, then the padding\<close>

text \<open>
  Claim C4.  For every message and every length \<open>len\<close>, \<^verbatim>\<open>sha1_hash\<close> is the padding
  step, run once with the total length \<open>len\<close> and the offset \<open>64 * (len div 64)\<close>, which
  leaves \<open>len mod 64\<close> bytes, after the compression function was called on the chunks
  \<open>0\<close>, \<open>1\<close>, ... below \<open>len div 64\<close> in this order, chunk \<open>k\<close> being the 64 bytes from
  offset \<open>64 * k\<close>.  The first \<open>len div 64\<close> calls are these chunks, and every call
  gets the state that the previous call returned.
\<close>

theorem sha1_hash_full_blocks_then_padding:
  "sha1_hash f m len h =
     sha1_pad f m len (of_nat (64 * (unat len div 64)))
       (fold (\<lambda>k. compress_message f m (64 * k)) [0..<unat len div 64] (sha1_init h)) \<and>
   unat (len - of_nat (64 * (unat len div 64))) = unat len mod 64 \<and>
   take (unat len div 64) (calls (sha1_hash f m len h)) =
     thread f (hash (sha1_init h)) (map (\<lambda>k. map m [64 * k..<64 * k + 64]) [0..<unat len div 64]) \<and>
   calls (sha1_hash f m len h) = thread f (hash (sha1_init h)) (padded_blocks m len) \<and>
   hash (sha1_hash f m len h) = absorb f (hash (sha1_init h)) (padded_blocks m len)"
proof -
  have "take (unat len div 64) (calls (sha1_hash f m len h)) =
        thread f (hash (sha1_init h)) (map (chunk m) [0..<unat len div 64])"
    by (simp add: sha1_hash_fields(1) padded_blocks_def thread_append length_thread)
  moreover have "chunk m = (\<lambda>k. map m [64 * k..<64 * k + 64])"
    by (rule ext) (simp add: chunk_def)
  ultimately show ?thesis
    using sha1_hash_unfold [of f m len h] full_offset(2) [of len] sha1_hash_fields [of f m len h]
    by simp
qed

text \<open>
  Claim C2.  The calls of the compression function are the \<open>len div 64\<close> full blocks
  and then one block when the tail \<open>len mod 64\<close> is at most 55 bytes, two blocks when
  it is 56 bytes or more.  The padding step alone, started with fewer than 64 bytes
  left, adds two calls exactly when the position behind the \<^verbatim>\<open>0x80\<close> byte is above
  56, and one call otherwise.
\<close>

theorem padding_block_count:
  "length (calls (sha1_hash f m len h)) =
     unat len div 64 + (if unat len mod 64 \<le> 55 then 1 else 2) \<and>
   (unat (len - off) < 64 \<longrightarrow>
    length (calls (sha1_pad f m len off s)) =
      length (calls s) + (if 56 < unat (len - off) + 1 then 2 else 1))"
proof -
  have "length (calls (sha1_pad f m len off s)) =
      length (calls s) + (if 56 < unat (len - off) + 1 then 2 else 1)"
    if "unat (len - off) < 64"
    using sha1_pad_fields(1) [OF refl that, of f m s]
    by (simp add: length_thread length_final_blocks)
  then show ?thesis
    by (simp add: sha1_hash_fields(1) length_thread length_padded_blocks)
qed

theorem padding_block_count_witness:
  "unat ((120 :: size_t) - 64) < 64 \<and>
   length (calls (sha1_hash (\<lambda>h b. h) (\<lambda>i. 0) 120 [])) = 3 \<and>
   length (calls (sha1_pad (\<lambda>h b. h) (\<lambda>i. 0) 120 64 (sha1_init []))) = 2 \<and>
   length (calls (sha1_hash (\<lambda>h b. h) (\<lambda>i. 0) 119 [])) = 2 \<and>
   length (calls (sha1_pad (\<lambda>h b. h) (\<lambda>i. 0) 119 64 (sha1_init []))) = 1"
  using padding_block_count [of "\<lambda>h b. h" "\<lambda>i. 0" 120 "[]" 64 "sha1_init []"]
    padding_block_count [of "\<lambda>h b. h" "\<lambda>i. 0" 119 "[]" 64 "sha1_init []"]
  by (simp add: sha1_init_fields(3))

subsection \<open>The initial state and what the digest depends on\<close>

text \<open>
  Claim C6.  The five stores of lines 97 to 101 leave the constants 0x67452301,
  0xEFCDAB89, 0x98BADCFE, 0x10325476, 0xC3D2E1F0 in \<^verbatim>\<open>hash[0..4]\<close> before any call of the
  compression function, the first call gets exactly this state, and the digest and the
  calls are the same whatever the caller's array of five words held before.
\<close>

theorem sha1_hash_initial_state:
  assumes "length h = 5" and "length h' = 5"
  shows "hash (sha1_init h) = [0x67452301, 0xEFCDAB89, 0x98BADCFE, 0x10325476, 0xC3D2E1F0] \<and>
         calls (sha1_init h) = [] \<and>
         fst (hd (calls (sha1_hash f m len h))) =
           [0x67452301, 0xEFCDAB89, 0x98BADCFE, 0x10325476, 0xC3D2E1F0] \<and>
         hash (sha1_hash f m len h) = hash (sha1_hash f m len h') \<and>
         calls (sha1_hash f m len h) = calls (sha1_hash f m len h')"
  using assms
  by (simp add: sha1_hash_fields sha1_init_hash sha1_init_fields(3) thread_hd
        padded_blocks_nonempty H0_def)

theorem sha1_hash_initial_state_witness:
  "length [1, 2, 3, 4, 5 :: u32] = 5 \<and> length [0, 0, 0, 0, 0 :: u32] = 5 \<and>
   hash (sha1_init [1, 2, 3, 4, 5]) =
     [0x67452301, 0xEFCDAB89, 0x98BADCFE, 0x10325476, 0xC3D2E1F0] \<and>
   hash (sha1_hash sha1_compress (c_bytes ''abc'') 3 [1, 2, 3, 4, 5]) =
   hash (sha1_hash sha1_compress (c_bytes ''abc'') 3 [0, 0, 0, 0, 0])"
  using sha1_hash_initial_state
    [of "[1, 2, 3, 4, 5]" "[0, 0, 0, 0, 0]" sha1_compress "c_bytes ''abc''" 3]
  by simp

text \<open>
  Claim C8.  The digest is a function of the compression function, the length and
  the message bytes below the length: two calls with the same length, on messages
  that agree on these bytes, return the same five words, whatever else the memory
  behind the message and the output array hold.
\<close>

theorem sha1_hash_deterministic:
  assumes "\<forall>i<unat len. m i = m' i" and "length h = 5" and "length h' = 5"
  shows "hash (sha1_hash f m len h) = hash (sha1_hash f m' len h')"
  using assms by (simp add: sha1_hash_fields sha1_init_hash padded_blocks_cong [of len m m'])

theorem sha1_hash_deterministic_witness:
  "unat (3 :: size_t) = 3 \<and> c_bytes ''abc'' 3 \<noteq> 255 \<and>
   length [1, 2, 3, 4, 5 :: u32] = 5 \<and> length [0, 0, 0, 0, 0 :: u32] = 5 \<and>
   hash (sha1_hash sha1_compress (c_bytes ''abc'') 3 [1, 2, 3, 4, 5]) =
   hash (sha1_hash sha1_compress (\<lambda>i. if i < 3 then c_bytes ''abc'' i else 255) 3
     [0, 0, 0, 0, 0])"
  using sha1_hash_deterministic
    [of 3 "c_bytes ''abc''" "\<lambda>i. if i < 3 then c_bytes ''abc'' i else 255"
       "[1, 2, 3, 4, 5]" "[0, 0, 0, 0, 0]" sha1_compress]
  by (simp add: c_bytes_def)

lemma unat_byte_of:
  fixes x :: size_t
  shows "unat (ucast (drop_bit k x) :: u8) = unat x div 2 ^ k mod 256"
proof -
  have "unat (ucast (drop_bit k x) :: u8) = take_bit LENGTH(8) (unat (drop_bit k x))"
    by (rule unsigned_ucast_eq)
  also have "unat (drop_bit k x) = drop_bit k (unat x)"
    by (rule unat_drop_bit_eq)
  finally show ?thesis
    by (simp add: take_bit_eq_mod drop_bit_eq_div)
qed

lemma unat_be64:
  "map unat (be64 x) = map (\<lambda>j. unat x div 2 ^ (8 * (7 - j)) mod 256) [0..<8]"
  by (simp add: be64_def unat_byte_of)

lemma unat_bit_length:
  fixes len :: size_t
  shows "unat (len * 8) = unat len * 8 mod 2 ^ 64"
  by (simp add: unat_word_ariths)

lemma drop_prefix: "length p = n \<Longrightarrow> drop n (p @ q) = q"
  by simp

lemma length_be64: "length (be64 x) = 8"
  by (simp add: be64_def)

lemma last_final_blocks:
  assumes "length t < 64"
  shows "length (last (final_blocks t len)) = 64"
    and "drop 56 (last (final_blocks t len)) = be64 (len * 8)"
proof -
  have one: "last (final_blocks t len) = (t @ [0x80] @ replicate (55 - length t) 0) @ be64 (len * 8)"
    if "length t \<le> 55"
    using that by (simp add: final_blocks_def)
  have two: "last (final_blocks t len) = replicate 56 0 @ be64 (len * 8)"
    if "\<not> length t \<le> 55"
    using that by (simp add: final_blocks_def)
  have p1: "length (t @ [0x80 :: u8] @ replicate (55 - length t) 0) = 56" if "length t \<le> 55"
    using that by simp
  have p2: "length (replicate 56 (0 :: u8)) = 56"
    by simp
  show "length (last (final_blocks t len)) = 64"
  proof (cases "length t \<le> 55")
    case True
    then show ?thesis
      using p1 [OF True] by (simp only: one [OF True] length_append length_be64)
  next
    case False
    then show ?thesis
      by (simp only: two [OF False] length_append length_be64 p2)
  qed
  show "drop 56 (last (final_blocks t len)) = be64 (len * 8)"
  proof (cases "length t \<le> 55")
    case True
    then show ?thesis
      using drop_prefix [OF p1 [OF True]] by (simp only: one [OF True])
  next
    case False
    then show ?thesis
      using drop_prefix [OF p2] by (simp only: two [OF False])
  qed
qed

lemma last_padded_blocks:
  "last (padded_blocks m len) = last (final_blocks (tail m len) len)"
  by (simp add: padded_blocks_def final_blocks_nonempty)

lemma snd_last_thread: "bs \<noteq> [] \<Longrightarrow> snd (last (thread f h bs)) = last bs"
proof -
  assume "bs \<noteq> []"
  then have "thread f h bs \<noteq> []"
    by (cases bs) simp_all
  then have "snd (last (thread f h bs)) = last (map snd (thread f h bs))"
    by (simp add: last_map)
  then show ?thesis
    by (simp add: map_snd_thread)
qed

lemma last_call_block:
  "snd (last (calls (sha1_hash f m len h))) = last (final_blocks (tail m len) len)"
  by (simp add: sha1_hash_fields(1) snd_last_thread padded_blocks_nonempty last_padded_blocks)

subsection \<open>The length field and the layout of the padding\<close>

text \<open>
  Claim C3.  The last block that is compressed has 64 bytes, and its last eight
  bytes are the bytes of \<open>len * 8\<close> modulo \<open>2 ^ 64\<close>, most significant first: byte
  \<open>56 + j\<close> is \<open>(len * 8 mod 2 ^ 64) div 2 ^ (8 * (7 - j)) mod 256\<close>.  Below \<open>2 ^ 61\<close>
  bytes the reduction modulo \<open>2 ^ 64\<close> changes nothing.  Lines 121 to 124, which
  write the field, leave the first 56 bytes of the block, the state and the calls
  as they are.
\<close>

theorem length_field_big_endian:
  "length (snd (last (calls (sha1_hash f m len h)))) = 64 \<and>
   map unat (drop 56 (snd (last (calls (sha1_hash f m len h))))) =
     map (\<lambda>j. (unat len * 8 mod 2 ^ 64) div 2 ^ (8 * (7 - j)) mod 256) [0..<8] \<and>
   (unat len < 2 ^ 61 \<longrightarrow>
     map unat (drop 56 (snd (last (calls (sha1_hash f m len h))))) =
       map (\<lambda>j. (unat len * 8) div 2 ^ (8 * (7 - j)) mod 256) [0..<8]) \<and>
   (length (block s) = 64 \<longrightarrow>
     take 56 (block (encode_length len s)) = take 56 (block s) \<and>
     drop 56 (block (encode_length len s)) = be64 (len * 8) \<and>
     hash (encode_length len s) = hash s \<and>
     calls (encode_length len s) = calls s)"
proof -
  have t: "length (tail m len) < 64"
    by (simp add: length_tail)
  have a: "length (snd (last (calls (sha1_hash f m len h)))) = 64"
    by (simp only: last_call_block last_final_blocks(1) [OF t])
  have "drop 56 (snd (last (calls (sha1_hash f m len h)))) = be64 (len * 8)"
    by (simp only: last_call_block last_final_blocks(2) [OF t])
  then have b: "map unat (drop 56 (snd (last (calls (sha1_hash f m len h))))) =
     map (\<lambda>j. (unat len * 8 mod 2 ^ 64) div 2 ^ (8 * (7 - j)) mod 256) [0..<8]"
    by (simp only: unat_be64 unat_bit_length)
  have c: "unat len * 8 mod 2 ^ 64 = unat len * 8" if "unat len < 2 ^ 61"
    using that by simp
  have d: "take 56 (block (encode_length len s)) = take 56 (block s) \<and>
     drop 56 (block (encode_length len s)) = be64 (len * 8) \<and>
     hash (encode_length len s) = hash s \<and>
     calls (encode_length len s) = calls s" if "length (block s) = 64"
    using that by (simp add: encode_length_block encode_length_fields(1,2))
  show ?thesis
    using a b c d by simp
qed

theorem length_field_big_endian_witness:
  "map unat (drop 56 (snd (last (calls (sha1_hash (\<lambda>h b. h) (\<lambda>i. 0) 1000 []))))) =
     [0, 0, 0, 0, 0, 0, 31, 64] \<and>
   take 56 (block (encode_length 1000 (memset_block (sha1_init [])))) = replicate 56 0 \<and>
   drop 56 (block (encode_length 1000 (memset_block (sha1_init [])))) = be64 8000"
  using length_field_big_endian [of "\<lambda>h b. h" "\<lambda>i. 0" 1000 "[]" "memset_block (sha1_init [])"]
  by (simp add: memset_block_fields upt_rec)

text \<open>
  Claim C5.  The blocks compressed after the full blocks are: for a tail of at
  most 55 bytes, one block with the tail, the byte \<^verbatim>\<open>0x80\<close>, zeros up to position 55
  and the length field; for a longer tail, a block with the tail, \<^verbatim>\<open>0x80\<close> and zeros up
  to its end, and a second block of 56 zeros and the length field.  The tail is the
  \<open>len mod 64\<close> bytes of the message behind the last full block.
\<close>

theorem padding_block_layout:
  "drop (unat len div 64) (map snd (calls (sha1_hash f m len h))) =
     (if unat len mod 64 \<le> 55
      then [map m [64 * (unat len div 64)..<unat len] @ [0x80] @
            replicate (55 - unat len mod 64) 0 @ be64 (len * 8)]
      else [map m [64 * (unat len div 64)..<unat len] @ [0x80] @
            replicate (63 - unat len mod 64) 0,
            replicate 56 0 @ be64 (len * 8)]) \<and>
   length (map m [64 * (unat len div 64)..<unat len]) = unat len mod 64"
proof -
  have "drop (unat len div 64) (map snd (calls (sha1_hash f m len h))) =
        final_blocks (tail m len) len"
    by (simp add: sha1_hash_fields(1) map_snd_thread padded_blocks_def)
  then show ?thesis
    using length_tail [of m len] by (simp add: final_blocks_def tail_def)
qed

subsection \<open>Memory accesses\<close>

lemma reads_ok: "b \<le> n \<Longrightarrow> list_all (access_ok n) (map MsgRead [a..<b])"
  by (simp add: list_all_iff)

lemma hash_writes_ok: "list_all (access_ok n) (map HashWrite [0..<5])"
  by (simp add: list_all_iff)

lemma block_writes_ok: "k \<le> 64 \<Longrightarrow> list_all (access_ok n) (map BlockWrite [0..<k])"
  by (simp add: list_all_iff)

lemma chunk_accesses_ok: "64 * k + 64 \<le> n \<Longrightarrow> list_all (access_ok n) (chunk_accesses k)"
  by (simp add: chunk_accesses_def reads_ok hash_writes_ok)

lemma sha1_init_accesses_ok: "list_all (access_ok n) (accesses (sha1_init h))"
  by (simp add: sha1_init_fields(4))

lemma full_blocks_accesses_ok:
  assumes "list_all (access_ok n) (accesses s)" "64 * k \<le> n"
  shows "list_all (access_ok n) (accesses (fold (\<lambda>j. compress_message f m (64 * j)) [0..<k] s))"
proof -
  have "list_all (access_ok n) (chunk_accesses j)" if "j < k" for j
  proof -
    have "64 * j + 64 \<le> 64 * k"
      using that by simp
    then show ?thesis
      using assms(2) by (intro chunk_accesses_ok) simp
  qed
  then have "list_all (access_ok n) (concat (map chunk_accesses [0..<k]))"
    by (simp add: list_all_iff)
  then show ?thesis
    using assms(1) by (simp add: full_blocks_fields(4))
qed

lemma sha1_pad_accesses_ok:
  fixes m :: byte_ptr and len off :: size_t and r :: nat
  assumes r: "unat (len - off) = r" "r < 64"
    and n: "unat off + r \<le> n"
    and s: "list_all (access_ok n) (accesses s)"
  shows "list_all (access_ok n) (accesses (sha1_pad f m len off s))"
  using r(2) n s
  by (simp add: sha1_pad_unfold [OF r] Let_def compress_call_fields encode_length_fields(3)
        memset_block_fields block_store_fields memcpy_block_fields reads_ok hash_writes_ok
        block_writes_ok)

lemma sha1_hash_accesses_ok:
  "list_all (access_ok (unat len)) (accesses (sha1_hash f m len h))"
proof -
  let ?n = "unat len div 64"
  let ?off = "of_nat (64 * ?n) :: size_t"
  let ?F = "fold (\<lambda>k. compress_message f m (64 * k)) [0..<?n] (sha1_init h)"
  have r: "unat (len - ?off) = unat len mod 64" "unat len mod 64 < 64"
    by (rule full_offset(2)) simp
  have n: "unat ?off + unat len mod 64 \<le> unat len"
    unfolding full_offset(1) by simp
  have "list_all (access_ok (unat len)) (accesses ?F)"
    by (rule full_blocks_accesses_ok) (simp_all add: sha1_init_accesses_ok)
  then have "list_all (access_ok (unat len)) (accesses (sha1_pad f m len ?off ?F))"
    by (rule sha1_pad_accesses_ok [OF r n])
  then show ?thesis
    by (simp only: sha1_hash_unfold)
qed

text \<open>
  Claim C10.  Every access that \<^verbatim>\<open>sha1_hash\<close> and the compression calls it makes
  perform is a read of a message byte below \<open>len\<close>, a write to one of the five words
  of \<^verbatim>\<open>hash\<close> or a write to one of the 64 bytes of the local block; with \<open>len = 0\<close>
  no message byte is read.  The state of the embedding has no other memory.
\<close>

theorem sha1_hash_frame:
  "list_all (access_ok (unat len)) (accesses (sha1_hash f m len h)) \<and>
   (\<forall>i. MsgRead i \<in> set (accesses (sha1_hash f m len h)) \<longrightarrow> i < unat len) \<and>
   (\<forall>i. MsgRead i \<notin> set (accesses (sha1_hash f m 0 h)))"
proof -
  have a: "list_all (access_ok (unat len)) (accesses (sha1_hash f m len h))" for len
    by (rule sha1_hash_accesses_ok)
  have b: "i < unat len" if "MsgRead i \<in> set (accesses (sha1_hash f m len h))" for i len
    using a [of len] that by (auto simp add: list_all_iff)
  have "MsgRead i \<notin> set (accesses (sha1_hash f m 0 h))" for i
    using b [of i 0] by auto
  with a b show ?thesis
    by blast
qed

lemma reads_last_byte_example: "MsgRead 2 \<in> set (accesses (sha1_hash (\<lambda>h b. h) (\<lambda>i. 0) 3 []))"
  by (simp add: sha1_hash_def read_blocks.simps sha1_pad_def Let_def memcpy_block_def
        memset_block_def block_store_def compress_call_def encode_length_def encode_loop.simps
        sha1_init_def hash_store_def)

theorem sha1_hash_frame_witness:
  "MsgRead 2 \<in> set (accesses (sha1_hash (\<lambda>h b. h) (\<lambda>i. 0) 3 [])) \<and>
   2 < unat (3 :: size_t) \<and>
   MsgRead 3 \<notin> set (accesses (sha1_hash (\<lambda>h b. h) (\<lambda>i. 0) 3 [])) \<and>
   MsgRead 0 \<notin> set (accesses (sha1_hash (\<lambda>h b. h) (\<lambda>i. 0) 0 []))"
  using sha1_hash_frame [of 3 "\<lambda>h b. h" "\<lambda>i. 0" "[]"] reads_last_byte_example
  by auto

subsection \<open>The test driver\<close>

lemma bench_loop_count:
  "i \<le> 10000000 \<Longrightarrow> snd (bench_loop f i (st, n)) = n + nat (10000000 - i)"
proof (induction f i "(st, n)" arbitrary: st n rule: bench_loop.induct)
  case (1 f i state n)
  show ?case
  proof (cases "i < 10000000")
    case True
    then have "snd (bench_loop f i (state, n)) =
        snd (bench_loop f (i + 1) (f state (replicate 64 0), n + 1))"
      by (simp add: bench_loop.simps [of f i state n])
    also have "\<dots> = n + 1 + nat (10000000 - (i + 1))"
      using True by (intro "1.hyps") simp_all
    finally show ?thesis
      using True by simp
  next
    case False
    then have "bench_loop f i (state, n) = (state, n)"
      by (simp add: bench_loop.simps [of f i state n])
    then show ?thesis
      using False "1.prems" by simp
  qed
qed

lemma self_check_from_iff:
  "self_check_from f u i =
     list_all (\<lambda>j. testcase_hash f (u j) (testCases ! j) = answer (testCases ! j))
       [i..<length testCases]"
proof (induction f u i rule: self_check_from.induct)
  case (1 f u i)
  show ?case
  proof (cases "i < length testCases")
    case True
    then have up: "[i..<length testCases] = i # [i + 1..<length testCases]"
      by (simp add: upt_conv_Cons)
    show ?thesis
    proof (cases "testcase_hash f (u i) (testCases ! i) = answer (testCases ! i)")
      case eq: True
      have "self_check_from f u i = self_check_from f u (i + 1)"
        using True eq by (simp add: self_check_from.simps [of f u i])
      also have "\<dots> = list_all (\<lambda>j. testcase_hash f (u j) (testCases ! j) = answer (testCases ! j))
         [i + 1..<length testCases]"
        using True eq by (intro "1.IH") simp_all
      finally show ?thesis
        using eq by (simp add: up del: upt_Suc)
    next
      case False
      then show ?thesis
        using True by (simp add: self_check_from.simps [of f u i] up del: upt_Suc)
    qed
  next
    case False
    then show ?thesis
      by (simp add: self_check_from.simps [of f u i])
  qed
qed

text \<open>
  Claim C9.  \<^verbatim>\<open>main\<close> returns 0 exactly when \<^verbatim>\<open>self_check\<close> returns true, that is
  when the digest of every entry of the table equals its answer; otherwise it returns
  \<^verbatim>\<open>EXIT_FAILURE\<close>, which is not 0, prints the failure line only and never enters the
  benchmark loop.  After a passed self-check the loop calls the compression function
  10000000 times.
\<close>

theorem main_exit_status:
  "(exit_status (main f u) = 0) = self_check f u \<and>
   exit_status (main f u) = (if self_check f u then EXIT_SUCCESS else EXIT_FAILURE) \<and>
   (\<not> self_check f u \<longrightarrow> exit_status (main f u) \<noteq> 0 \<and> bench_calls (main f u) = 0 \<and>
      stdout (main f u) = [Self_check_failed]) \<and>
   bench_calls (main f u) = (if self_check f u then 10000000 else 0) \<and>
   self_check f u =
     list_all (\<lambda>j. testcase_hash f (u j) (testCases ! j) = answer (testCases ! j))
       [0..<length testCases]"
proof -
  have "snd (bench_loop f 0 (replicate 5 0, 0)) = 10000000"
    using bench_loop_count [of 0 f "replicate 5 0" 0] by simp
  then have "bench_calls (main f u) = (if self_check f u then 10000000 else 0)"
    by (auto simp add: main_def split: prod.splits)
  moreover have "exit_status (main f u) = (if self_check f u then EXIT_SUCCESS else EXIT_FAILURE)"
    by (simp add: main_def split: prod.split)
  moreover have "stdout (main f u) = [Self_check_failed]" if "\<not> self_check f u"
    using that by (simp add: main_def)
  moreover have "self_check f u =
     list_all (\<lambda>j. testcase_hash f (u j) (testCases ! j) = answer (testCases ! j))
       [0..<length testCases]"
    by (simp only: self_check_def self_check_from_iff)
  ultimately show ?thesis
    by (simp add: EXIT_SUCCESS_def EXIT_FAILURE_def)
qed

subsection \<open>Evaluation on concrete inputs\<close>

lemma replicate_numeral: "replicate (numeral k) x = x # replicate (pred_numeral k) x"
  by (simp add: numeral_eq_Suc)

lemma upt_0_numeral: "[0..<numeral n] = 0 # [Suc 0..<numeral n]"
  by (subst upt_rec) simp

lemma upt_1_numeral:
  "[Suc 0..<numeral n] = (if Suc 0 < numeral n then Suc 0 # [2..<numeral n] else [])"
  by (subst upt_rec) (simp add: numeral_2_eq_2)


lemma upt_rounds:
  "[0..<80] = [0..<20] @ [20..<40] @ [40..<60] @ [60..<80]"
  using upt_add_eq_append [of 0 20 20] upt_add_eq_append [of 0 40 20]
    upt_add_eq_append [of 0 60 20]
  by simp

lemma sha1_compress_staged:
  assumes "schedule blk = w"
    and "fold (sha1_round w) [0..<20] (h0, h1, h2, h3, h4) = s1"
    and "fold (sha1_round w) [20..<40] s1 = s2"
    and "fold (sha1_round w) [40..<60] s2 = s3"
    and "fold (sha1_round w) [60..<80] s3 = (a, b, c, d, e)"
    and "[h0 + a, h1 + b, h2 + c, h3 + d, h4 + e] = r"
  shows "sha1_compress [h0, h1, h2, h3, h4] blk = r"
  using assms unfolding sha1_compress_def upt_rounds by (simp del: upt_rec_numeral)

lemmas schedule_eval = schedule_def schedule_step_def be32_def rotl32_def upt_0_numeral
  upt_1_numeral

lemmas rounds_eval = rotl32_def round_f_def round_k_def upt_0_numeral upt_1_numeral

text \<open>The seven compression calls of the six test messages, and their padded blocks.\<close>

lemma compress_empty:
  "sha1_compress
     [0x67452301, 0xEFCDAB89, 0x98BADCFE, 0x10325476, 0xC3D2E1F0]
     [0x80, 0x00, 0x00, 0x00, 0x00, 0x00, 0x00, 0x00, 0x00, 0x00, 0x00, 0x00, 0x00, 0x00, 0x00,
      0x00, 0x00, 0x00, 0x00, 0x00, 0x00, 0x00, 0x00, 0x00, 0x00, 0x00, 0x00, 0x00, 0x00, 0x00,
      0x00, 0x00, 0x00, 0x00, 0x00, 0x00, 0x00, 0x00, 0x00, 0x00, 0x00, 0x00, 0x00, 0x00, 0x00,
      0x00, 0x00, 0x00, 0x00, 0x00, 0x00, 0x00, 0x00, 0x00, 0x00, 0x00, 0x00, 0x00, 0x00, 0x00,
      0x00, 0x00, 0x00, 0x00] =
   [0xDA39A3EE, 0x5E6B4B0D, 0x3255BFEF, 0x95601890, 0xAFD80709]"
  by (rule sha1_compress_staged
        [where w = "[0x80000000, 0x00000000, 0x00000000, 0x00000000, 0x00000000, 0x00000000,
                    0x00000000, 0x00000000, 0x00000000, 0x00000000, 0x00000000, 0x00000000,
                    0x00000000, 0x00000000, 0x00000000, 0x00000000, 0x00000001, 0x00000000,
                    0x00000000, 0x00000002, 0x00000000, 0x00000000, 0x00000004, 0x00000000,
                    0x00000002, 0x00000008, 0x00000000, 0x00000000, 0x00000010, 0x00000000,
                    0x0000000A, 0x00000020, 0x00000006, 0x00000000, 0x00000040, 0x00000008,
                    0x00000028, 0x00000080, 0x00000008, 0x00000000, 0x00000108, 0x00000000,
                    0x000000A0, 0x00000200, 0x00000064, 0x00000000, 0x00000408, 0x00000088,
                    0x0000029C, 0x00000800, 0x00000080, 0x00000028, 0x00001088, 0x00000000,
                    0x00000A40, 0x00002000, 0x00000668, 0x00000080, 0x00004088, 0x00000880,
                    0x000028C8, 0x00008000, 0x000008A8, 0x00000080, 0x000108E8, 0x00000000,
                    0x0000A000, 0x00020080, 0x00006400, 0x00000000, 0x00040800, 0x00008800,
                    0x00029C10, 0x00080000, 0x00008080, 0x00002820, 0x001088C0, 0x00000000,
                    0x000A40C0, 0x00200080]"
           and ?s1.0 = "(0xE758E8DA, 0x0B3088DD, 0x8A2A5483, 0xC1AFE45C, 0xF63F5951)"
           and ?s2.0 = "(0x9BDBDD71, 0x62273351, 0xEC805E22, 0x413C1D9A, 0x2AEEAE62)"
           and ?s3.0 = "(0x9B9D2913, 0x982BCBCA, 0xB86BEAC8, 0xC5A3382E, 0xAF9292FA)"
           and a = "0x72F480ED" and b = "0x6E9D9F84" and c = "0x999AE2F1"
           and d = "0x852DC41A" and e = "0xEC052519"];
      simp add: schedule_eval rounds_eval)

lemma compress_a:
  "sha1_compress
     [0x67452301, 0xEFCDAB89, 0x98BADCFE, 0x10325476, 0xC3D2E1F0]
     [0x61, 0x80, 0x00, 0x00, 0x00, 0x00, 0x00, 0x00, 0x00, 0x00, 0x00, 0x00, 0x00, 0x00, 0x00,
      0x00, 0x00, 0x00, 0x00, 0x00, 0x00, 0x00, 0x00, 0x00, 0x00, 0x00, 0x00, 0x00, 0x00, 0x00,
      0x00, 0x00, 0x00, 0x00, 0x00, 0x00, 0x00, 0x00, 0x00, 0x00, 0x00, 0x00, 0x00, 0x00, 0x00,
      0x00, 0x00, 0x00, 0x00, 0x00, 0x00, 0x00, 0x00, 0x00, 0x00, 0x00, 0x00, 0x00, 0x00, 0x00,
      0x00, 0x00, 0x00, 0x08] =
   [0x86F7E437, 0xFAA5A7FC, 0xE15D1DDC, 0xB9EAEAEA, 0x377667B8]"
  by (rule sha1_compress_staged
        [where w = "[0x61800000, 0x00000000, 0x00000000, 0x00000000, 0x00000000, 0x00000000,
                    0x00000000, 0x00000000, 0x00000000, 0x00000000, 0x00000000, 0x00000000,
                    0x00000000, 0x00000000, 0x00000000, 0x00000008, 0xC3000000, 0x00000000,
                    0x00000010, 0x86000001, 0x00000000, 0x00000020, 0x0C000003, 0x00000010,
                    0x86000041, 0x18000006, 0x00000000, 0x00000080, 0x3000000C, 0x00000050,
                    0x9E000107, 0x60000028, 0x8A000002, 0x00000200, 0xC0000070, 0x18000146,
                    0x7800041E, 0x80000021, 0x18000006, 0x00000840, 0x180000C5, 0x00000500,
                    0xE0001079, 0x000002A6, 0xAC00002B, 0x00002040, 0x1800074A, 0x98001487,
                    0xA40041EE, 0x00000218, 0x80000121, 0x7800845E, 0x98000C57, 0x00005200,
                    0xC00107AE, 0x00002B20, 0xB80006A4, 0x80020421, 0x980074A7, 0x80014039,
                    0x58041E2F, 0x000024C0, 0xF8000267, 0x80084721, 0x3800C557, 0x00050000,
                    0x00107DE0, 0x8002A661, 0x00002BAC, 0x00204000, 0x00074A18, 0x00148718,
                    0x3041EEA8, 0x00021C00, 0x800120E1, 0x60845860, 0x400C57C9, 0x00520600,
                    0x4107AA91, 0x802B2FE1]"
           and ?s1.0 = "(0x3AD1E596, 0xAB5979F5, 0x05BFFAFF, 0xD7EB6C02, 0xCBB2BA41)"
           and ?s2.0 = "(0xAC15A69D, 0xA3B72B37, 0x508A16EC, 0xFF02367C, 0xC97A575A)"
           and ?s3.0 = "(0xC682F53F, 0x80C84724, 0x1A0D1B08, 0xE0648CCD, 0xABD3DCDF)"
           and a = "0x1FB2C136" and b = "0x0AD7FC73" and c = "0x48A240DE"
           and d = "0xA9B89674" and e = "0x73A385C8"];
      simp add: schedule_eval rounds_eval)

lemma compress_abc:
  "sha1_compress
     [0x67452301, 0xEFCDAB89, 0x98BADCFE, 0x10325476, 0xC3D2E1F0]
     [0x61, 0x62, 0x63, 0x80, 0x00, 0x00, 0x00, 0x00, 0x00, 0x00, 0x00, 0x00, 0x00, 0x00, 0x00,
      0x00, 0x00, 0x00, 0x00, 0x00, 0x00, 0x00, 0x00, 0x00, 0x00, 0x00, 0x00, 0x00, 0x00, 0x00,
      0x00, 0x00, 0x00, 0x00, 0x00, 0x00, 0x00, 0x00, 0x00, 0x00, 0x00, 0x00, 0x00, 0x00, 0x00,
      0x00, 0x00, 0x00, 0x00, 0x00, 0x00, 0x00, 0x00, 0x00, 0x00, 0x00, 0x00, 0x00, 0x00, 0x00,
      0x00, 0x00, 0x00, 0x18] =
   [0xA9993E36, 0x4706816A, 0xBA3E2571, 0x7850C26C, 0x9CD0D89D]"
  by (rule sha1_compress_staged
        [where w = "[0x61626380, 0x00000000, 0x00000000, 0x00000000, 0x00000000, 0x00000000,
                    0x00000000, 0x00000000, 0x00000000, 0x00000000, 0x00000000, 0x00000000,
                    0x00000000, 0x00000000, 0x00000000, 0x00000018, 0xC2C4C700, 0x00000000,
                    0x00000030, 0x85898E01, 0x00000000, 0x00000060, 0x0B131C03, 0x00000030,
                    0x85898EC1, 0x16263806, 0x00000000, 0x00000180, 0x2C4C700C, 0x000000F0,
                    0x93AFB507, 0x5898E048, 0x8E9A9202, 0x00000600, 0xB131C0F0, 0x16263BC6,
                    0x4EBED41E, 0x626380A1, 0x16263806, 0x000018C0, 0xD2E138C4, 0x00000F00,
                    0x3AFB5079, 0x898E04E5, 0xE2BA3C2B, 0x000060C0, 0x053A37CD, 0x74458547,
                    0xDA9415ED, 0x26380A16, 0x626383A1, 0x4EBF54DE, 0x3835B44B, 0x0000F600,
                    0x1E84C7A3, 0x98E04D98, 0x651D16A0, 0x62658CA1, 0x458544D6, 0x44584CB7,
                    0x7BA06619, 0x6380AEA2, 0x0AE55269, 0x627B49A1, 0x7CD45C9D, 0x000F0000,
                    0xFB50753A, 0xEC6765E8, 0xBA3C2BE2, 0x0060C000, 0x3A37CD05, 0x458546F4,
                    0xB8599DD6, 0x380A1A26, 0x01E02203, 0xE7CC3456, 0xE6E60B69, 0x00F60A00,
                    0x5795EF4F, 0x822E0879]"
           and ?s1.0 = "(0xFD9E1D7D, 0xDC64901D, 0x20AA99CA, 0xD3A49608, 0xC82F758B)"
           and ?s2.0 = "(0x32DE1CBA, 0x4C986405, 0xF718E5CF, 0x03D447F6, 0xF72EEC32)"
           and ?s3.0 = "(0x3F52DE5A, 0x09D785FD, 0x3498BFD4, 0xF211824F, 0xD79915AB)"
           and a = "0x42541B35" and b = "0x5738D5E1" and c = "0x21834873"
           and d = "0x681E6DF6" and e = "0xD8FDF6AD"];
      simp add: schedule_eval rounds_eval)

lemma compress_message_digest:
  "sha1_compress
     [0x67452301, 0xEFCDAB89, 0x98BADCFE, 0x10325476, 0xC3D2E1F0]
     [0x6D, 0x65, 0x73, 0x73, 0x61, 0x67, 0x65, 0x20, 0x64, 0x69, 0x67, 0x65, 0x73, 0x74, 0x80,
      0x00, 0x00, 0x00, 0x00, 0x00, 0x00, 0x00, 0x00, 0x00, 0x00, 0x00, 0x00, 0x00, 0x00, 0x00,
      0x00, 0x00, 0x00, 0x00, 0x00, 0x00, 0x00, 0x00, 0x00, 0x00, 0x00, 0x00, 0x00, 0x00, 0x00,
      0x00, 0x00, 0x00, 0x00, 0x00, 0x00, 0x00, 0x00, 0x00, 0x00, 0x00, 0x00, 0x00, 0x00, 0x00,
      0x00, 0x00, 0x00, 0x70] =
   [0xC12252CE, 0xDA8BE899, 0x4D5FA029, 0x0A47231C, 0x1D16AAE3]"
  by (rule sha1_compress_staged
        [where w = "[0x6D657373, 0x61676520, 0x64696765, 0x73748000, 0x00000000, 0x00000000,
                    0x00000000, 0x00000000, 0x00000000, 0x00000000, 0x00000000, 0x00000000,
                    0x00000000, 0x00000000, 0x00000000, 0x00000070, 0x1218282C, 0x2427CA40,
                    0xC8D2CE2A, 0xC2D95058, 0x484F9480, 0x91A59C55, 0x85B2A0B1, 0x909F29E0,
                    0x077B68F3, 0x432AD5E3, 0xB09BCF94, 0x8B447157, 0x16CA82C6, 0x427CA762,
                    0x39DDF394, 0x44E4C22D, 0x3F9A532F, 0x381378DF, 0xE9C4AE26, 0xCF45DCEB,
                    0xC6499C51, 0x550579E3, 0xE8A3CE7A, 0xA23144FE, 0xBAFF1B57, 0x31BC2422,
                    0xDB494F15, 0x79042313, 0xB1C59243, 0x11A8A773, 0x2FC09BA5, 0xDE06D89E,
                    0xFA12825A, 0xD2543767, 0x55854BF8, 0x32AC0882, 0x9AF7EE1E, 0x6633A32D,
                    0x9E608C14, 0xAEF8ACB9, 0xFB2EEA6B, 0x09197884, 0x23E2742F, 0x425CCD13,
                    0x1BD73EF8, 0x14FF51DF, 0x13DCB1F0, 0x72FAFB71, 0x808CE42C, 0xF47BED23,
                    0x3CD45571, 0x2C9F0521, 0xD67763A3, 0xC1C01675, 0xB41BA55C, 0x06D899DE,
                    0x3300D83B, 0x164BFBD0, 0x04730CF0, 0x927883AC, 0x906E2EF7, 0x476D6057,
                    0x6A66E659, 0x206F42F6]"
           and ?s1.0 = "(0x81508FF3, 0x1BD0D46C, 0x9A621170, 0x2AB712C7, 0xECC1570A)"
           and ?s2.0 = "(0x8FA789A2, 0x777DA2D4, 0x6798172A, 0xA073C2CD, 0x5F065A83)"
           and ?s3.0 = "(0x267769A6, 0xB31F7D27, 0x0D7495B5, 0xFC04202A, 0xBF004EF1)"
           and a = "0x59DD2FCD" and b = "0xEABE3D10" and c = "0xB4A4C32B"
           and d = "0xFA14CEA6" and e = "0x5943C8F3"];
      simp add: schedule_eval rounds_eval)

lemma compress_alphabet:
  "sha1_compress
     [0x67452301, 0xEFCDAB89, 0x98BADCFE, 0x10325476, 0xC3D2E1F0]
     [0x61, 0x62, 0x63, 0x64, 0x65, 0x66, 0x67, 0x68, 0x69, 0x6A, 0x6B, 0x6C, 0x6D, 0x6E, 0x6F,
      0x70, 0x71, 0x72, 0x73, 0x74, 0x75, 0x76, 0x77, 0x78, 0x79, 0x7A, 0x80, 0x00, 0x00, 0x00,
      0x00, 0x00, 0x00, 0x00, 0x00, 0x00, 0x00, 0x00, 0x00, 0x00, 0x00, 0x00, 0x00, 0x00, 0x00,
      0x00, 0x00, 0x00, 0x00, 0x00, 0x00, 0x00, 0x00, 0x00, 0x00, 0x00, 0x00, 0x00, 0x00, 0x00,
      0x00, 0x00, 0x00, 0xD0] =
   [0x32D10C7B, 0x8CF96570, 0xCA04CE37, 0xF2A19D84, 0x240D3A89]"
  by (rule sha1_compress_staged
        [where w = "[0x61626364, 0x65666768, 0x696A6B6C, 0x6D6E6F70, 0x71727374, 0x75767778,
                    0x797A8000, 0x00000000, 0x00000000, 0x00000000, 0x00000000, 0x00000000,
                    0x00000000, 0x00000000, 0x00000000, 0x000000D0, 0x10101010, 0x10101030,
                    0x30303190, 0x10101030, 0x3031C688, 0x8A8C8DD0, 0xD2D52060, 0x60638CB0,
                    0x35393B81, 0x858A60A1, 0xA0A77A40, 0x4A525762, 0x6B774C53, 0x5457EE80,
                    0x112ECE25, 0x3609A006, 0x829DE902, 0x29495D09, 0x2D5E5ABD, 0xA4A64700,
                    0x41B5EF65, 0x27CD6ABB, 0xA4C92588, 0x24AB46E5, 0x619D84F0, 0x84B09E84,
                    0x844A5497, 0xB67CF425, 0x7EB9E72F, 0x83B2E155, 0x020DED15, 0x8AA4B98A,
                    0x9BD9AC34, 0x16A4D330, 0xC40AB18A, 0x5D9CEB55, 0x1AC3FDE5, 0x89BCF902,
                    0x358B4E71, 0x60F9381C, 0xEF650AA3, 0x23C7EFC0, 0xBC00745C, 0x0E6FE90D,
                    0x8B60303E, 0x7955AB02, 0x4461CCBB, 0xEF32C530, 0x93C7783F, 0x593C363C,
                    0x1BF7FA07, 0x931106CA, 0xFA296B2D, 0x17CF2037, 0x1B3D1D46, 0xAC4AF382,
                    0xAEDA4DEF, 0xDF525B6E, 0x01BA9BCF, 0x95E21254, 0xD4F5998D, 0x0025AB95,
                    0xB2F3772C, 0x9D633207]"
           and ?s1.0 = "(0x38134BF2, 0x988662A7, 0xCD420073, 0xCA3C785F, 0x88629273)"
           and ?s2.0 = "(0x74F9046C, 0xD0BAB5EF, 0xA626A62C, 0x48AD2E3E, 0x6A19C49A)"
           and ?s3.0 = "(0x5B1D01EA, 0xC9785AC0, 0xB92377A8, 0x64315E7B, 0xA89CB60B)"
           and a = "0xCB8BE97A" and b = "0x9D2BB9E7" and c = "0x3149F139"
           and d = "0xE26F490E" and e = "0x603A5899"];
      simp add: schedule_eval rounds_eval)

lemma compress_long_1:
  "sha1_compress
     [0x67452301, 0xEFCDAB89, 0x98BADCFE, 0x10325476, 0xC3D2E1F0]
     [0x61, 0x62, 0x63, 0x64, 0x62, 0x63, 0x64, 0x65, 0x63, 0x64, 0x65, 0x66, 0x64, 0x65, 0x66,
      0x67, 0x65, 0x66, 0x67, 0x68, 0x66, 0x67, 0x68, 0x69, 0x67, 0x68, 0x69, 0x6A, 0x68, 0x69,
      0x6A, 0x6B, 0x69, 0x6A, 0x6B, 0x6C, 0x6A, 0x6B, 0x6C, 0x6D, 0x6B, 0x6C, 0x6D, 0x6E, 0x6C,
      0x6D, 0x6E, 0x6F, 0x6D, 0x6E, 0x6F, 0x70, 0x6E, 0x6F, 0x70, 0x71, 0x80, 0x00, 0x00, 0x00,
      0x00, 0x00, 0x00, 0x00] =
   [0xF4286818, 0xC37B27AE, 0x0408F581, 0x84677148, 0x4A566572]"
  by (rule sha1_compress_staged
        [where w = "[0x61626364, 0x62636465, 0x63646566, 0x64656667, 0x65666768, 0x66676869,
                    0x6768696A, 0x68696A6B, 0x696A6B6C, 0x6A6B6C6D, 0x6B6C6D6E, 0x6C6D6E6F,
                    0x6D6E6F70, 0x6E6F7071, 0x80000000, 0x00000000, 0x0A063A3E, 0xD8DADCDF,
                    0xDADCDEC0, 0xC8D2B4BE, 0x6F757B5B, 0x757B5967, 0x8DA16D70, 0xDAEEFABA,
                    0xFAF6CAB6, 0xA6FB675A, 0x0C604CC8, 0x604CC02C, 0x49C0E6E2, 0x2EE8CBBC,
                    0xCFD72EC4, 0x97E9810E, 0x0989CBE8, 0xF24843FE, 0x5C40D0BA, 0xA8D9CC3B,
                    0xB2B9666E, 0xBA7B71B7, 0x20B28A72, 0xB28AF500, 0x8AC87842, 0x289ADDF4,
                    0x56D51F21, 0xD96B7FD2, 0x3868E778, 0xAB5E4848, 0x7F0E2118, 0xDE87A111,
                    0xE8BE56B0, 0x1A0AE652, 0xCD5611C8, 0x46EF29DC, 0x60D3DA6D, 0xDDF3BA6E,
                    0x2737F5E9, 0x4888A710, 0xD2A1177B, 0x9999633B, 0xD6C69D03, 0xCCF6127B,
                    0x7C58FE6D, 0xFDD99C68, 0xF8E32074, 0xE0BA3C7D, 0x152198D6, 0x7B3F1982,
                    0x37F2D5B7, 0x8596323E, 0x810790D6, 0xBEA0A942, 0x11C7E1B1, 0x6158D101,
                    0x5FCD77D9, 0x7F2F12E6, 0xF868CFB1, 0xD6E997E9, 0xF526B852, 0xB7578DCC,
                    0x55D99DF4, 0x1FF69958]"
           and ?s1.0 = "(0x6C445652, 0x944B1BD1, 0x509AE70D, 0x1AC1A012, 0x5098DF8E)"
           and ?s2.0 = "(0xADEB7478, 0x24957F22, 0x50FE1EBA, 0x564CFF26, 0xAADF0CBB)"
           and ?s3.0 = "(0x9EF775C3, 0xF03D3782, 0xEB029E53, 0xE9A06DC8, 0x1DDB0E44)"
           and a = "0x8CE34517" and b = "0xD3AD7C25" and c = "0x6B4E1883"
           and d = "0x74351CD2" and e = "0x86838382"];
      simp add: schedule_eval rounds_eval)

lemma compress_long_2:
  "sha1_compress
     [0xF4286818, 0xC37B27AE, 0x0408F581, 0x84677148, 0x4A566572]
     [0x00, 0x00, 0x00, 0x00, 0x00, 0x00, 0x00, 0x00, 0x00, 0x00, 0x00, 0x00, 0x00, 0x00, 0x00,
      0x00, 0x00, 0x00, 0x00, 0x00, 0x00, 0x00, 0x00, 0x00, 0x00, 0x00, 0x00, 0x00, 0x00, 0x00,
      0x00, 0x00, 0x00, 0x00, 0x00, 0x00, 0x00, 0x00, 0x00, 0x00, 0x00, 0x00, 0x00, 0x00, 0x00,
      0x00, 0x00, 0x00, 0x00, 0x00, 0x00, 0x00, 0x00, 0x00, 0x00, 0x00, 0x00, 0x00, 0x00, 0x00,
      0x00, 0x00, 0x01, 0xC0] =
   [0x84983E44, 0x1C3BD26E, 0xBAAE4AA1, 0xF95129E5, 0xE54670F1]"
  by (rule sha1_compress_staged
        [where w = "[0x00000000, 0x00000000, 0x00000000, 0x00000000, 0x00000000, 0x00000000,
                    0x00000000, 0x00000000, 0x00000000, 0x00000000, 0x00000000, 0x00000000,
                    0x00000000, 0x00000000, 0x00000000, 0x000001C0, 0x00000000, 0x00000000,
                    0x00000380, 0x00000000, 0x00000000, 0x00000700, 0x00000000, 0x00000380,
                    0x00000E00, 0x00000000, 0x00000000, 0x00001C00, 0x00000000, 0x00000D80,
                    0x00003800, 0x00000480, 0x00000000, 0x00007000, 0x00000E00, 0x00003600,
                    0x0000E000, 0x00000E00, 0x00000000, 0x0001CE00, 0x00000000, 0x0000D800,
                    0x00038000, 0x00004F00, 0x00000000, 0x00070E00, 0x0000EE00, 0x00037500,
                    0x000E0000, 0x0000E000, 0x00003600, 0x001CEE00, 0x00000000, 0x000DF000,
                    0x00380000, 0x0004C600, 0x0000E000, 0x0070EE00, 0x000EE000, 0x00369E00,
                    0x00E00000, 0x000ED600, 0x0000E000, 0x01CEA600, 0x00000000, 0x00D80000,
                    0x0380E000, 0x004F0000, 0x00000000, 0x070E0000, 0x00EE0000, 0x03751C00,
                    0x0E000000, 0x00E0E000, 0x00363800, 0x1CEE9000, 0x00000000, 0x0DF09000,
                    0x3800E000, 0x04C77400]"
           and ?s1.0 = "(0xD8992153, 0xC2EB709F, 0x2946D62F, 0x9541F6DB, 0x365DC8D8)"
           and ?s2.0 = "(0x03BB6310, 0x84E2A5F2, 0x21F56E03, 0xB3BD6B84, 0x1A5B6901)"
           and ?s3.0 = "(0xA65818F7, 0x5B086C42, 0xB9E15956, 0xEA1256A6, 0xDB69CB9F)"
           and a = "0x906FD62C" and b = "0x58C0AAC0" and c = "0xB6A55520"
           and d = "0x74E9B89D" and e = "0x9AF00B7F"];
      simp add: schedule_eval rounds_eval)

lemma padded_empty:
  "padded_blocks (c_bytes []) 0 =
   [[0x80, 0x00, 0x00, 0x00, 0x00, 0x00, 0x00, 0x00, 0x00, 0x00, 0x00, 0x00, 0x00, 0x00, 0x00,
      0x00, 0x00, 0x00, 0x00, 0x00, 0x00, 0x00, 0x00, 0x00, 0x00, 0x00, 0x00, 0x00, 0x00, 0x00,
      0x00, 0x00, 0x00, 0x00, 0x00, 0x00, 0x00, 0x00, 0x00, 0x00, 0x00, 0x00, 0x00, 0x00, 0x00,
      0x00, 0x00, 0x00, 0x00, 0x00, 0x00, 0x00, 0x00, 0x00, 0x00, 0x00, 0x00, 0x00, 0x00, 0x00,
      0x00, 0x00, 0x00, 0x00]]"
  by (simp add: padded_blocks_def chunk_def tail_def final_blocks_def be64_unfold c_bytes_def
        replicate_numeral upt_0_numeral upt_1_numeral)

lemma padded_a:
  "padded_blocks (c_bytes ''a'') 1 =
   [[0x61, 0x80, 0x00, 0x00, 0x00, 0x00, 0x00, 0x00, 0x00, 0x00, 0x00, 0x00, 0x00, 0x00, 0x00,
      0x00, 0x00, 0x00, 0x00, 0x00, 0x00, 0x00, 0x00, 0x00, 0x00, 0x00, 0x00, 0x00, 0x00, 0x00,
      0x00, 0x00, 0x00, 0x00, 0x00, 0x00, 0x00, 0x00, 0x00, 0x00, 0x00, 0x00, 0x00, 0x00, 0x00,
      0x00, 0x00, 0x00, 0x00, 0x00, 0x00, 0x00, 0x00, 0x00, 0x00, 0x00, 0x00, 0x00, 0x00, 0x00,
      0x00, 0x00, 0x00, 0x08]]"
  by (simp add: padded_blocks_def chunk_def tail_def final_blocks_def be64_unfold c_bytes_def
        replicate_numeral upt_0_numeral upt_1_numeral)

lemma padded_abc:
  "padded_blocks (c_bytes ''abc'') 3 =
   [[0x61, 0x62, 0x63, 0x80, 0x00, 0x00, 0x00, 0x00, 0x00, 0x00, 0x00, 0x00, 0x00, 0x00, 0x00,
      0x00, 0x00, 0x00, 0x00, 0x00, 0x00, 0x00, 0x00, 0x00, 0x00, 0x00, 0x00, 0x00, 0x00, 0x00,
      0x00, 0x00, 0x00, 0x00, 0x00, 0x00, 0x00, 0x00, 0x00, 0x00, 0x00, 0x00, 0x00, 0x00, 0x00,
      0x00, 0x00, 0x00, 0x00, 0x00, 0x00, 0x00, 0x00, 0x00, 0x00, 0x00, 0x00, 0x00, 0x00, 0x00,
      0x00, 0x00, 0x00, 0x18]]"
  by (simp add: padded_blocks_def chunk_def tail_def final_blocks_def be64_unfold c_bytes_def
        replicate_numeral upt_0_numeral upt_1_numeral)

lemma padded_message_digest:
  "padded_blocks (c_bytes ''message digest'') 14 =
   [[0x6D, 0x65, 0x73, 0x73, 0x61, 0x67, 0x65, 0x20, 0x64, 0x69, 0x67, 0x65, 0x73, 0x74, 0x80,
      0x00, 0x00, 0x00, 0x00, 0x00, 0x00, 0x00, 0x00, 0x00, 0x00, 0x00, 0x00, 0x00, 0x00, 0x00,
      0x00, 0x00, 0x00, 0x00, 0x00, 0x00, 0x00, 0x00, 0x00, 0x00, 0x00, 0x00, 0x00, 0x00, 0x00,
      0x00, 0x00, 0x00, 0x00, 0x00, 0x00, 0x00, 0x00, 0x00, 0x00, 0x00, 0x00, 0x00, 0x00, 0x00,
      0x00, 0x00, 0x00, 0x70]]"
  by (simp add: padded_blocks_def chunk_def tail_def final_blocks_def be64_unfold c_bytes_def
        replicate_numeral upt_0_numeral upt_1_numeral)

lemma padded_alphabet:
  "padded_blocks (c_bytes ''abcdefghijklmnopqrstuvwxyz'') 26 =
   [[0x61, 0x62, 0x63, 0x64, 0x65, 0x66, 0x67, 0x68, 0x69, 0x6A, 0x6B, 0x6C, 0x6D, 0x6E, 0x6F,
      0x70, 0x71, 0x72, 0x73, 0x74, 0x75, 0x76, 0x77, 0x78, 0x79, 0x7A, 0x80, 0x00, 0x00, 0x00,
      0x00, 0x00, 0x00, 0x00, 0x00, 0x00, 0x00, 0x00, 0x00, 0x00, 0x00, 0x00, 0x00, 0x00, 0x00,
      0x00, 0x00, 0x00, 0x00, 0x00, 0x00, 0x00, 0x00, 0x00, 0x00, 0x00, 0x00, 0x00, 0x00, 0x00,
      0x00, 0x00, 0x00, 0xD0]]"
  by (simp add: padded_blocks_def chunk_def tail_def final_blocks_def be64_unfold c_bytes_def
        replicate_numeral upt_0_numeral upt_1_numeral)

lemma padded_long:
  "padded_blocks (c_bytes ''abcdbcdecdefdefgefghfghighijhijkijkljklmklmnlmnomnopnopq'') 56 =
   [[0x61, 0x62, 0x63, 0x64, 0x62, 0x63, 0x64, 0x65, 0x63, 0x64, 0x65, 0x66, 0x64, 0x65, 0x66,
      0x67, 0x65, 0x66, 0x67, 0x68, 0x66, 0x67, 0x68, 0x69, 0x67, 0x68, 0x69, 0x6A, 0x68, 0x69,
      0x6A, 0x6B, 0x69, 0x6A, 0x6B, 0x6C, 0x6A, 0x6B, 0x6C, 0x6D, 0x6B, 0x6C, 0x6D, 0x6E, 0x6C,
      0x6D, 0x6E, 0x6F, 0x6D, 0x6E, 0x6F, 0x70, 0x6E, 0x6F, 0x70, 0x71, 0x80, 0x00, 0x00, 0x00,
      0x00, 0x00, 0x00, 0x00],
    [0x00, 0x00, 0x00, 0x00, 0x00, 0x00, 0x00, 0x00, 0x00, 0x00, 0x00, 0x00, 0x00, 0x00, 0x00,
      0x00, 0x00, 0x00, 0x00, 0x00, 0x00, 0x00, 0x00, 0x00, 0x00, 0x00, 0x00, 0x00, 0x00, 0x00,
      0x00, 0x00, 0x00, 0x00, 0x00, 0x00, 0x00, 0x00, 0x00, 0x00, 0x00, 0x00, 0x00, 0x00, 0x00,
      0x00, 0x00, 0x00, 0x00, 0x00, 0x00, 0x00, 0x00, 0x00, 0x00, 0x00, 0x00, 0x00, 0x00, 0x00,
      0x00, 0x00, 0x01, 0xC0]]"
  by (simp add: padded_blocks_def chunk_def tail_def final_blocks_def be64_unfold c_bytes_def
        replicate_numeral upt_0_numeral upt_1_numeral)

lemma known_digests:
  assumes "length u = 5"
  shows "hash (sha1_hash sha1_compress (c_bytes []) 0 u) =
           [0xDA39A3EE, 0x5E6B4B0D, 0x3255BFEF, 0x95601890, 0xAFD80709]"
    and "hash (sha1_hash sha1_compress (c_bytes ''a'') 1 u) =
           [0x86F7E437, 0xFAA5A7FC, 0xE15D1DDC, 0xB9EAEAEA, 0x377667B8]"
    and "hash (sha1_hash sha1_compress (c_bytes ''abc'') 3 u) =
           [0xA9993E36, 0x4706816A, 0xBA3E2571, 0x7850C26C, 0x9CD0D89D]"
    and "hash (sha1_hash sha1_compress (c_bytes ''message digest'') 14 u) =
           [0xC12252CE, 0xDA8BE899, 0x4D5FA029, 0x0A47231C, 0x1D16AAE3]"
    and "hash (sha1_hash sha1_compress (c_bytes ''abcdefghijklmnopqrstuvwxyz'') 26 u) =
           [0x32D10C7B, 0x8CF96570, 0xCA04CE37, 0xF2A19D84, 0x240D3A89]"
    and "hash (sha1_hash sha1_compress
           (c_bytes ''abcdbcdecdefdefgefghfghighijhijkijkljklmklmnlmnomnopnopq'') 56 u) =
           [0x84983E44, 0x1C3BD26E, 0xBAAE4AA1, 0xF95129E5, 0xE54670F1]"
proof -
  note start = sha1_hash_fields(2) sha1_init_hash [OF assms] H0_def absorb.simps
  show "hash (sha1_hash sha1_compress (c_bytes []) 0 u) =
           [0xDA39A3EE, 0x5E6B4B0D, 0x3255BFEF, 0x95601890, 0xAFD80709]"
    by (simp only: start padded_empty compress_empty)
  show "hash (sha1_hash sha1_compress (c_bytes ''a'') 1 u) =
           [0x86F7E437, 0xFAA5A7FC, 0xE15D1DDC, 0xB9EAEAEA, 0x377667B8]"
    by (simp only: start padded_a compress_a)
  show "hash (sha1_hash sha1_compress (c_bytes ''abc'') 3 u) =
           [0xA9993E36, 0x4706816A, 0xBA3E2571, 0x7850C26C, 0x9CD0D89D]"
    by (simp only: start padded_abc compress_abc)
  show "hash (sha1_hash sha1_compress (c_bytes ''message digest'') 14 u) =
           [0xC12252CE, 0xDA8BE899, 0x4D5FA029, 0x0A47231C, 0x1D16AAE3]"
    by (simp only: start padded_message_digest compress_message_digest)
  show "hash (sha1_hash sha1_compress (c_bytes ''abcdefghijklmnopqrstuvwxyz'') 26 u) =
           [0x32D10C7B, 0x8CF96570, 0xCA04CE37, 0xF2A19D84, 0x240D3A89]"
    by (simp only: start padded_alphabet compress_alphabet)
  show "hash (sha1_hash sha1_compress
           (c_bytes ''abcdbcdecdefdefgefghfghighijhijkijkljklmklmnlmnomnopnopq'') 56 u) =
           [0x84983E44, 0x1C3BD26E, 0xBAAE4AA1, 0xF95129E5, 0xE54670F1]"
    by (simp only: start padded_long compress_long_1 compress_long_2)
qed

lemma self_check_unfold:
  "self_check f uninit =
    (hash (sha1_hash f (c_bytes []) 0 (uninit 0)) =
       [0xDA39A3EE, 0x5E6B4B0D, 0x3255BFEF, 0x95601890, 0xAFD80709] \<and>
     hash (sha1_hash f (c_bytes ''a'') 1 (uninit 1)) =
       [0x86F7E437, 0xFAA5A7FC, 0xE15D1DDC, 0xB9EAEAEA, 0x377667B8] \<and>
     hash (sha1_hash f (c_bytes ''abc'') 3 (uninit 2)) =
       [0xA9993E36, 0x4706816A, 0xBA3E2571, 0x7850C26C, 0x9CD0D89D] \<and>
     hash (sha1_hash f (c_bytes ''message digest'') 14 (uninit 3)) =
       [0xC12252CE, 0xDA8BE899, 0x4D5FA029, 0x0A47231C, 0x1D16AAE3] \<and>
     hash (sha1_hash f (c_bytes ''abcdefghijklmnopqrstuvwxyz'') 26 (uninit 4)) =
       [0x32D10C7B, 0x8CF96570, 0xCA04CE37, 0xF2A19D84, 0x240D3A89] \<and>
     hash (sha1_hash f
       (c_bytes ''abcdbcdecdefdefgefghfghighijhijkijkljklmklmnlmnomnopnopq'') 56 (uninit 5)) =
       [0x84983E44, 0x1C3BD26E, 0xBAAE4AA1, 0xF95129E5, 0xE54670F1])"
proof -
  have idx: "uninit (Suc 0) = uninit 1" "uninit (Suc (Suc 0)) = uninit 2"
    "uninit (Suc (Suc (Suc 0))) = uninit 3" "uninit (Suc (Suc (Suc (Suc 0)))) = uninit 4"
    "uninit (Suc (Suc (Suc (Suc (Suc 0))))) = uninit 5"
    by (simp_all add: eval_nat_numeral)
  show ?thesis
    unfolding idx [symmetric]
    by (simp add: self_check_def self_check_from_iff testCases_def testcase_hash_def strlen_def
        upt_0_numeral upt_1_numeral)
qed

subsection \<open>The compression function of the specification\<close>

lemma rotl32_word_rotl:
  assumes "0 < n" "n < 32"
  shows "rotl32 x n = word_rotl n x"
  unfolding rotl32_def
proof (rule bit_word_eqI)
  fix k
  assume "k < LENGTH(32)"
  then have k: "k < 32"
    by simp
  have hi: "\<not> bit x j" if "32 \<le> j" for j
    using bit_imp_le_length [of x j] that by auto
  show "bit (push_bit n x OR drop_bit (32 - n) x) k = bit (word_rotl n x) k"
  proof (cases "n \<le> k")
    case True
    have "k + (32 - n) = (k - n) + 32"
      using True assms by simp
    then have "(k + (32 - n)) mod 32 = (k - n) mod 32"
      by (simp only: mod_add_self2)
    then have i1: "(k + (LENGTH(32) - n mod LENGTH(32))) mod LENGTH(32) = k - n"
      using k assms by simp
    have R: "bit (word_rotl n x) k = bit x (k - n)"
      using k by (simp only: bit_word_rotl_iff i1) simp
    have L: "bit (push_bit n x OR drop_bit (32 - n) x) k = bit x (k - n)"
      using True assms k by (simp add: bit_or_iff bit_push_bit_iff bit_drop_bit_eq hi)
    show ?thesis
      by (simp only: L R)
  next
    case False
    have "k + (32 - n) < 32"
      using False assms by simp
    then have "(k + (32 - n)) mod 32 = k + (32 - n)"
      by (rule mod_less)
    then have i2: "(k + (LENGTH(32) - n mod LENGTH(32))) mod LENGTH(32) = 32 - n + k"
      using assms by simp
    have R: "bit (word_rotl n x) k = bit x (32 - n + k)"
      using k by (simp only: bit_word_rotl_iff i2) simp
    have L: "bit (push_bit n x OR drop_bit (32 - n) x) k = bit x (32 - n + k)"
      using False by (simp add: bit_or_iff bit_push_bit_iff bit_drop_bit_eq)
    show ?thesis
      by (simp only: L R)
  qed
qed

lemma schedule_fold:
  assumes "length w = a" and "0 < a"
  shows "length (fold schedule_step [a..<a + n] w) = a + n \<and>
     (\<forall>i<a. fold schedule_step [a..<a + n] w ! i = w ! i) \<and>
     (\<forall>i. a \<le> i \<and> i < a + n \<longrightarrow>
        fold schedule_step [a..<a + n] w ! i =
          rotl32 (fold schedule_step [a..<a + n] w ! (i - 3) XOR
                  fold schedule_step [a..<a + n] w ! (i - 8) XOR
                  fold schedule_step [a..<a + n] w ! (i - 14) XOR
                  fold schedule_step [a..<a + n] w ! (i - 16)) 1)"
proof (induction n)
  case 0
  then show ?case
    using assms by auto
next
  case (Suc n)
  define V where "V = fold schedule_step [a..<a + n] w"
  define x where "x = rotl32 (V ! (a + n - 3) XOR V ! (a + n - 8) XOR V ! (a + n - 14) XOR
    V ! (a + n - 16)) 1"
  have step: "fold schedule_step [a..<a + Suc n] w = V @ [x]"
    by (simp add: V_def x_def schedule_step_def)
  have len: "length V = a + n"
    using Suc by (simp add: V_def)
  have old: "(V @ [x]) ! i = V ! i" if "i < a + n" for i
    using that len by (simp add: nth_append)
  have new: "(V @ [x]) ! (a + n) = x"
    using len by (simp add: nth_append)
  have earlier: "(V @ [x]) ! (i - k) = V ! (i - k)" if "i \<le> a + n" "0 < k" "0 < i" for i k
    using that by (intro old) simp
  have "(V @ [x]) ! i = rotl32 ((V @ [x]) ! (i - 3) XOR (V @ [x]) ! (i - 8) XOR
      (V @ [x]) ! (i - 14) XOR (V @ [x]) ! (i - 16)) 1"
    if i: "a \<le> i" "i < a + Suc n" for i
  proof (cases "i = a + n")
    case True
    have pos: "0 < i"
      using True assms(2) by simp
    have e: "(V @ [x]) ! (i - 3) = V ! (i - 3)" "(V @ [x]) ! (i - 8) = V ! (i - 8)"
      "(V @ [x]) ! (i - 14) = V ! (i - 14)" "(V @ [x]) ! (i - 16) = V ! (i - 16)"
      using True pos by (simp_all add: earlier)
    have "(V @ [x]) ! i = x"
      using True new by simp
    also have "x = rotl32 (V ! (i - 3) XOR V ! (i - 8) XOR V ! (i - 14) XOR V ! (i - 16)) 1"
      unfolding x_def True ..
    finally show ?thesis
      by (simp only: e)
  next
    case False
    then have lt: "i < a + n"
      using i by simp
    have pos: "0 < i"
      using i assms(2) by simp
    have e: "(V @ [x]) ! (i - 3) = V ! (i - 3)" "(V @ [x]) ! (i - 8) = V ! (i - 8)"
      "(V @ [x]) ! (i - 14) = V ! (i - 14)" "(V @ [x]) ! (i - 16) = V ! (i - 16)"
      using lt pos by (simp_all add: earlier)
    have "V ! i = rotl32 (V ! (i - 3) XOR V ! (i - 8) XOR V ! (i - 14) XOR V ! (i - 16)) 1"
      using Suc i(1) lt unfolding V_def by blast
    then show ?thesis
      by (simp only: e old [OF lt])
  qed
  moreover have "(V @ [x]) ! i = w ! i" if "i < a" for i
  proof -
    have "V ! i = w ! i"
      using Suc that unfolding V_def by blast
    moreover have "i < a + n"
      using that by simp
    ultimately show ?thesis
      by (simp only: old)
  qed
  moreover have "length (V @ [x]) = a + Suc n"
    using len by simp
  ultimately show ?case
    unfolding step by simp
qed


lemma schedule_props:
  "length (schedule blk) = 80"
  "i < 16 \<Longrightarrow> schedule blk ! i = be32 blk i"
  "16 \<le> i \<Longrightarrow> i < 80 \<Longrightarrow>
     schedule blk ! i =
       rotl32 (schedule blk ! (i - 3) XOR schedule blk ! (i - 8) XOR
               schedule blk ! (i - 14) XOR schedule blk ! (i - 16)) 1"
proof -
  have w0: "length (map (be32 blk) [0..<16]) = 16"
    by simp
  have u: "[16..<80] = [16..<16 + 64]"
    by simp
  have pos: "0 < (16 :: nat)"
    by simp
  note f = schedule_fold [OF w0 pos, of 64, folded u, folded schedule_def]
  show "length (schedule blk) = 80"
    using f by simp
  show "schedule blk ! i = be32 blk i" if "i < 16"
  proof -
    have "schedule blk ! i = map (be32 blk) [0..<16] ! i"
      using f that by blast
    also have "\<dots> = be32 blk i"
      using that by (simp only: nth_map_upt) simp
    finally show ?thesis .
  qed
  show "schedule blk ! i =
       rotl32 (schedule blk ! (i - 3) XOR schedule blk ! (i - 8) XOR
               schedule blk ! (i - 14) XOR schedule blk ! (i - 16)) 1"
    if "16 \<le> i" "i < 80"
    using f that by simp
qed

text \<open>
  Claim C7.  For the compression function as section 4.1 of the specification
  describes it: the schedule has 80 words; word \<open>i\<close> below 16 is made of the bytes
  \<open>4 * i\<close> to \<open>4 * i + 3\<close> of the block, the first byte in the top eight bits; word \<open>i\<close>
  from 16 on is the exclusive or of the words 3, 8, 14 and 16 places before it, rotated
  left by one bit; rotate-left by \<open>n\<close> between 1 and 31 is the rotation of the word
  library; a round maps \<open>(a, b, c, d, e)\<close> to
  \<open>(rotl(a, 5) + f + e + k + w[j], a, rotl(b, 30), c, d)\<close> with \<open>f\<close> and \<open>k\<close> chosen by
  the range of \<open>j\<close>; the result is the state plus the working variables after the 80
  rounds, each sum modulo \<open>2 ^ 32\<close>.
\<close>

theorem sha1_compress_specification:
  "length (schedule blk) = 80 \<and>
   (i < 16 \<longrightarrow>
      schedule blk ! i =
        push_bit 24 (ucast (blk ! (4 * i))) OR push_bit 16 (ucast (blk ! (4 * i + 1))) OR
        push_bit 8 (ucast (blk ! (4 * i + 2))) OR ucast (blk ! (4 * i + 3))) \<and>
   (16 \<le> i \<and> i < 80 \<longrightarrow>
      schedule blk ! i =
        rotl32 (schedule blk ! (i - 3) XOR schedule blk ! (i - 8) XOR
                schedule blk ! (i - 14) XOR schedule blk ! (i - 16)) 1) \<and>
   (0 < n \<and> n < 32 \<longrightarrow> rotl32 x n = word_rotl n x) \<and>
   sha1_round w j (a, b, c, d, e) =
     (rotl32 a 5 +
      (if j < 20 then (b AND c) OR (NOT b AND d)
       else if j < 40 then b XOR c XOR d
       else if j < 60 then (b AND c) OR (b AND d) OR (c AND d)
       else b XOR c XOR d) +
      e +
      (if j < 20 then 0x5A827999
       else if j < 40 then 0x6ED9EBA1
       else if j < 60 then 0x8F1BBCDC
       else 0xCA62C1D6) +
      w ! j,
      a, rotl32 b 30, c, d) \<and>
   sha1_compress [h0, h1, h2, h3, h4] blk =
     (case fold (sha1_round (schedule blk)) [0..<80] (h0, h1, h2, h3, h4) of
        (a', b', c', d', e') \<Rightarrow> [h0 + a', h1 + b', h2 + c', h3 + d', h4 + e']) \<and>
   unat (y + z :: u32) = (unat y + unat z) mod 2 ^ 32"
proof -
  have "sha1_compress [h0, h1, h2, h3, h4] blk =
     (case fold (sha1_round (schedule blk)) [0..<80] (h0, h1, h2, h3, h4) of
        (a', b', c', d', e') \<Rightarrow> [h0 + a', h1 + b', h2 + c', h3 + d', h4 + e'])"
    by (simp add: sha1_compress_def del: upt_rec_numeral)
  moreover have "unat (y + z) = (unat y + unat z) mod 2 ^ 32"
    by (simp add: unat_word_ariths)
  moreover have "sha1_round w j (a, b, c, d, e) =
     (rotl32 a 5 +
      (if j < 20 then (b AND c) OR (NOT b AND d)
       else if j < 40 then b XOR c XOR d
       else if j < 60 then (b AND c) OR (b AND d) OR (c AND d)
       else b XOR c XOR d) +
      e +
      (if j < 20 then 0x5A827999
       else if j < 40 then 0x6ED9EBA1
       else if j < 60 then 0x8F1BBCDC
       else 0xCA62C1D6) +
      w ! j,
      a, rotl32 b 30, c, d)"
    by (simp only: sha1_round.simps round_f_def round_k_def)
  ultimately show ?thesis
    using schedule_props(1) [where blk = blk] schedule_props(2,3) [where blk = blk and i = i]
      rotl32_word_rotl [where n = n and x = x]
    by (simp only: be32_def) blast
qed

theorem sha1_compress_specification_witness:
  "length (schedule
     [0x61, 0x62, 0x63, 0x80, 0, 0, 0, 0, 0, 0, 0, 0, 0, 0, 0, 0]) = 80 \<and>
   schedule [0x61, 0x62, 0x63, 0x80, 0, 0, 0, 0, 0, 0, 0, 0, 0, 0, 0, 0] ! 0 = 0x61626380 \<and>
   schedule [0x61, 0x62, 0x63, 0x80, 0, 0, 0, 0, 0, 0, 0, 0, 0, 0, 0, 0] ! 16 =
     rotl32 (schedule [0x61, 0x62, 0x63, 0x80, 0, 0, 0, 0, 0, 0, 0, 0, 0, 0, 0, 0] ! 13 XOR
             schedule [0x61, 0x62, 0x63, 0x80, 0, 0, 0, 0, 0, 0, 0, 0, 0, 0, 0, 0] ! 8 XOR
             schedule [0x61, 0x62, 0x63, 0x80, 0, 0, 0, 0, 0, 0, 0, 0, 0, 0, 0, 0] ! 2 XOR
             schedule [0x61, 0x62, 0x63, 0x80, 0, 0, 0, 0, 0, 0, 0, 0, 0, 0, 0, 0] ! 0) 1 \<and>
   rotl32 0x80000001 1 = word_rotl 1 0x80000001"
  using sha1_compress_specification
      [where blk = "[0x61, 0x62, 0x63, 0x80, 0, 0, 0, 0, 0, 0, 0, 0, 0, 0, 0, 0]" and i = 0
         and n = 1 and x = "0x80000001"]
    sha1_compress_specification
      [where blk = "[0x61, 0x62, 0x63, 0x80, 0, 0, 0, 0, 0, 0, 0, 0, 0, 0, 0, 0]" and i = 16]
  by simp

subsection \<open>The known-answer vectors\<close>

text \<open>
  Claim C1.  With the compression function of section 4.1, \<^verbatim>\<open>sha1_hash\<close> on each of
  the six messages and its length in bytes returns the five words listed for it,
  whatever the five-word output array held before; the table \<^verbatim>\<open>testCases\<close> holds
  these messages and digests; for any compression function \<^verbatim>\<open>self_check\<close> returns
  true exactly when all six digests it computes equal the listed ones, and with the
  compression function of section 4.1 it returns true.
\<close>

theorem known_answer_vectors:
  assumes "length u = 5" and "\<forall>i. length (uninit i) = 5"
  shows
   "hash (sha1_hash sha1_compress (c_bytes []) 0 u) =
      [0xDA39A3EE, 0x5E6B4B0D, 0x3255BFEF, 0x95601890, 0xAFD80709] \<and>
    hash (sha1_hash sha1_compress (c_bytes ''a'') 1 u) =
      [0x86F7E437, 0xFAA5A7FC, 0xE15D1DDC, 0xB9EAEAEA, 0x377667B8] \<and>
    hash (sha1_hash sha1_compress (c_bytes ''abc'') 3 u) =
      [0xA9993E36, 0x4706816A, 0xBA3E2571, 0x7850C26C, 0x9CD0D89D] \<and>
    hash (sha1_hash sha1_compress (c_bytes ''message digest'') 14 u) =
      [0xC12252CE, 0xDA8BE899, 0x4D5FA029, 0x0A47231C, 0x1D16AAE3] \<and>
    hash (sha1_hash sha1_compress (c_bytes ''abcdefghijklmnopqrstuvwxyz'') 26 u) =
      [0x32D10C7B, 0x8CF96570, 0xCA04CE37, 0xF2A19D84, 0x240D3A89] \<and>
    hash (sha1_hash sha1_compress
      (c_bytes ''abcdbcdecdefdefgefghfghighijhijkijkljklmklmnlmnomnopnopq'') 56 u) =
      [0x84983E44, 0x1C3BD26E, 0xBAAE4AA1, 0xF95129E5, 0xE54670F1] \<and>
    map message testCases =
      [[], ''a'', ''abc'', ''message digest'', ''abcdefghijklmnopqrstuvwxyz'',
       ''abcdbcdecdefdefgefghfghighijhijkijkljklmklmnlmnomnopnopq''] \<and>
    map (\<lambda>tc. of_nat (strlen (message tc)) :: size_t) testCases = [0, 1, 3, 14, 26, 56] \<and>
    map answer testCases =
      [[0xDA39A3EE, 0x5E6B4B0D, 0x3255BFEF, 0x95601890, 0xAFD80709],
       [0x86F7E437, 0xFAA5A7FC, 0xE15D1DDC, 0xB9EAEAEA, 0x377667B8],
       [0xA9993E36, 0x4706816A, 0xBA3E2571, 0x7850C26C, 0x9CD0D89D],
       [0xC12252CE, 0xDA8BE899, 0x4D5FA029, 0x0A47231C, 0x1D16AAE3],
       [0x32D10C7B, 0x8CF96570, 0xCA04CE37, 0xF2A19D84, 0x240D3A89],
       [0x84983E44, 0x1C3BD26E, 0xBAAE4AA1, 0xF95129E5, 0xE54670F1]] \<and>
    self_check f v =
      (hash (sha1_hash f (c_bytes []) 0 (v 0)) =
         [0xDA39A3EE, 0x5E6B4B0D, 0x3255BFEF, 0x95601890, 0xAFD80709] \<and>
       hash (sha1_hash f (c_bytes ''a'') 1 (v 1)) =
         [0x86F7E437, 0xFAA5A7FC, 0xE15D1DDC, 0xB9EAEAEA, 0x377667B8] \<and>
       hash (sha1_hash f (c_bytes ''abc'') 3 (v 2)) =
         [0xA9993E36, 0x4706816A, 0xBA3E2571, 0x7850C26C, 0x9CD0D89D] \<and>
       hash (sha1_hash f (c_bytes ''message digest'') 14 (v 3)) =
         [0xC12252CE, 0xDA8BE899, 0x4D5FA029, 0x0A47231C, 0x1D16AAE3] \<and>
       hash (sha1_hash f (c_bytes ''abcdefghijklmnopqrstuvwxyz'') 26 (v 4)) =
         [0x32D10C7B, 0x8CF96570, 0xCA04CE37, 0xF2A19D84, 0x240D3A89] \<and>
       hash (sha1_hash f
         (c_bytes ''abcdbcdecdefdefgefghfghighijhijkijkljklmklmnlmnomnopnopq'') 56 (v 5)) =
         [0x84983E44, 0x1C3BD26E, 0xBAAE4AA1, 0xF95129E5, 0xE54670F1]) \<and>
    self_check sha1_compress uninit"
proof -
  have "self_check sha1_compress uninit"
    using assms(2) by (simp only: self_check_unfold known_digests simp_thms)
  moreover have "map message testCases =
      [[], ''a'', ''abc'', ''message digest'', ''abcdefghijklmnopqrstuvwxyz'',
       ''abcdbcdecdefdefgefghfghighijhijkijkljklmklmnlmnomnopnopq'']"
    by (simp add: testCases_def)
  moreover have
    "map (\<lambda>tc. of_nat (strlen (message tc)) :: size_t) testCases = [0, 1, 3, 14, 26, 56]"
    by (simp add: testCases_def strlen_def)
  moreover have "map answer testCases =
      [[0xDA39A3EE, 0x5E6B4B0D, 0x3255BFEF, 0x95601890, 0xAFD80709],
       [0x86F7E437, 0xFAA5A7FC, 0xE15D1DDC, 0xB9EAEAEA, 0x377667B8],
       [0xA9993E36, 0x4706816A, 0xBA3E2571, 0x7850C26C, 0x9CD0D89D],
       [0xC12252CE, 0xDA8BE899, 0x4D5FA029, 0x0A47231C, 0x1D16AAE3],
       [0x32D10C7B, 0x8CF96570, 0xCA04CE37, 0xF2A19D84, 0x240D3A89],
       [0x84983E44, 0x1C3BD26E, 0xBAAE4AA1, 0xF95129E5, 0xE54670F1]]"
    by (simp add: testCases_def)
  ultimately show ?thesis
    using known_digests [OF assms(1)] self_check_unfold [of f v]
    by (simp only: simp_thms)
qed

theorem known_answer_vectors_witness:
  "hash (sha1_hash sha1_compress (c_bytes ''abc'') 3 [0, 0, 0, 0, 0]) =
     [0xA9993E36, 0x4706816A, 0xBA3E2571, 0x7850C26C, 0x9CD0D89D] \<and>
   hash (sha1_hash sha1_compress
     (c_bytes ''abcdbcdecdefdefgefghfghighijhijkijkljklmklmnlmnomnopnopq'') 56 [0, 0, 0, 0, 0]) =
     [0x84983E44, 0x1C3BD26E, 0xBAAE4AA1, 0xF95129E5, 0xE54670F1] \<and>
   self_check sha1_compress (\<lambda>i. [0, 0, 0, 0, 0])"
  using known_answer_vectors [of "[0, 0, 0, 0, 0]" "\<lambda>i. [0, 0, 0, 0, 0]"]
  by simp

subsection \<open>The test driver on two compression functions\<close>

lemma absorb_identity: "absorb (\<lambda>h b. h) h bs = h"
  by (induction bs) simp_all

lemma identity_fails: "\<not> self_check (\<lambda>h b. h) (\<lambda>i. replicate 5 0)"
  by (simp add: self_check_def self_check_from.simps [of _ _ 0] testCases_def testcase_hash_def
        sha1_hash_fields(2) sha1_init_hash H0_def absorb_identity)

lemma self_check_passes: "self_check sha1_compress (\<lambda>i. [0, 0, 0, 0, 0])"
proof -
  have "length [0, 0, 0, 0, 0 :: u32] = 5"
    by simp
  note known_digests [OF this]
  then show ?thesis
    by (simp only: self_check_unfold simp_thms)
qed

theorem main_exit_status_witness:
  "\<not> self_check (\<lambda>h b. h) (\<lambda>i. replicate 5 0) \<and>
   exit_status (main (\<lambda>h b. h) (\<lambda>i. replicate 5 0)) = 1 \<and>
   bench_calls (main (\<lambda>h b. h) (\<lambda>i. replicate 5 0)) = 0 \<and>
   stdout (main (\<lambda>h b. h) (\<lambda>i. replicate 5 0)) = [Self_check_failed] \<and>
   self_check sha1_compress (\<lambda>i. [0, 0, 0, 0, 0]) \<and>
   exit_status (main sha1_compress (\<lambda>i. [0, 0, 0, 0, 0])) = 0 \<and>
   bench_calls (main sha1_compress (\<lambda>i. [0, 0, 0, 0, 0])) = 10000000"
  using main_exit_status [of "\<lambda>h b. h" "\<lambda>i. replicate 5 0"] identity_fails
    main_exit_status [of sha1_compress "\<lambda>i. [0, 0, 0, 0, 0]"] self_check_passes
  by (simp add: EXIT_FAILURE_def EXIT_SUCCESS_def)

end
